theory Spec2Isabelle
  imports Main "HOL-Library.Word"
begin

unbundle bit_operations_syntax

section \<open>RF remote relay controller: data model\<close>

text \<open>
  The sketch targets an 8-bit AVR board: \<open>unsigned long\<close> is 32 bits, \<open>int\<close> is 16 bits,
  \<open>byte\<close> is 8 bits and \<open>sizeof(unsigned long)\<close> is 4. \<open>millis()\<close> is an
  \<open>unsigned long\<close> and wraps modulo \<open>2 ^ 32\<close>.
\<close>

type_synonym u8 = "8 word"
type_synonym u16 = "16 word"
type_synonym u32 = "32 word"

text \<open>
  Everything the sketch does to the outside world is appended to a trace, in program
  order: text and numbers sent to the serial port (with or without a line end), levels
  driven on output pins, bus transactions with the bytes they carry and the status they ended with, read requests
  with the number of bytes asked for and delivered, and blocking delays.
\<close>

datatype effect =
    Print string
  | PrintLn string
  | PrintNum int
  | PrintNumLn int
  | PinWrite nat bool
  | BusWrite "u8 list" nat
  | BusRead nat nat
  | Delay nat

text \<open>
  The state is the sketch's global variables followed by the hardware it talks to.
  \<open>learnStep\<close> is an \<open>int\<close> in the source that only takes the values 0 to 4, so it is a
  \<open>nat\<close> here. The hardware part is: the millisecond counter read by \<open>millis()\<close>; the
  receiver's pending value and its available flag; the level of the learn button pin
  (\<open>True\<close> is LOW, pressed); the bytes of the external EEPROM and its address pointer;
  the statuses that the coming bus transmissions will end with and the byte counts that
  the coming read requests will deliver.
\<close>

record sys =
  relayStates :: "bool list"
  buttonCodes :: "u32 list"
  learningMode :: bool
  learnStep :: nat
  lastReceivedTime :: u32
  lastReceivedCode :: u32
  lastDebounceTime :: u32
  learningModeStartTime :: u32
  clock :: u32
  rx_available :: bool
  rx_value :: u32
  button_low :: bool
  mem :: "nat \<Rightarrow> u8"
  dev_ptr :: nat
  tx_status :: "nat list"
  rx_deliver :: "nat list"
  trace :: "effect list"

definition relayPins :: "nat list" where
  "relayPins = [3, 4, 5, 6]"

definition debounceTime :: u32 where
  "debounceTime = 1000"

definition debounceDelay :: u32 where
  "debounceDelay = 50"

definition learningModeTimeout :: u32 where
  "learningModeTimeout = 300000"

section \<open>Board primitives\<close>

definition emit :: "effect \<Rightarrow> sys \<Rightarrow> sys" where
  "emit e s = s\<lparr>trace := trace s @ [e]\<rparr>"

definition Serial_print :: "string \<Rightarrow> sys \<Rightarrow> sys" where
  "Serial_print t s = emit (Print t) s"

definition Serial_println :: "string \<Rightarrow> sys \<Rightarrow> sys" where
  "Serial_println t s = emit (PrintLn t) s"

definition Serial_print_num :: "int \<Rightarrow> sys \<Rightarrow> sys" where
  "Serial_print_num n s = emit (PrintNum n) s"

definition Serial_println_num :: "int \<Rightarrow> sys \<Rightarrow> sys" where
  "Serial_println_num n s = emit (PrintNumLn n) s"

definition digitalWrite :: "nat \<Rightarrow> bool \<Rightarrow> sys \<Rightarrow> sys" where
  "digitalWrite pin level s = emit (PinWrite pin level) s"

definition millis :: "sys \<Rightarrow> u32" where
  "millis s = clock s"

text \<open>\<open>delay(n)\<close> blocks for \<open>n\<close> milliseconds: the counter moves on by \<open>n\<close>.\<close>

definition delay :: "nat \<Rightarrow> sys \<Rightarrow> sys" where
  "delay n s = emit (Delay n) (s\<lparr>clock := clock s + of_nat n\<rparr>)"

definition resetAvailable :: "sys \<Rightarrow> sys" where
  "resetAvailable s = s\<lparr>rx_available := False\<rparr>"

section \<open>The two-wire bus and the EEPROM behind it\<close>

fun store_bytes :: "nat \<Rightarrow> u8 list \<Rightarrow> (nat \<Rightarrow> u8) \<Rightarrow> (nat \<Rightarrow> u8)" where
  "store_bytes a [] m = m"
| "store_bytes a (b # bs) m = store_bytes (Suc a) bs (m(a := b))"

text \<open>
  Modelled from the spec: the Wire library and the EEPROM device are not part of the
  sketch. A write transaction is [address-high, address-low, payload bytes...]: an
  acknowledged one sets the device's address pointer and stores the payload at
  consecutive addresses from there; one that is not acknowledged changes nothing in the
  device. The status is the next entry of \<open>tx_status\<close> (0 is success; a bus with no
  entry left acknowledges).
\<close>

definition next_status :: "sys \<Rightarrow> nat" where
  "next_status s = (case tx_status s of [] \<Rightarrow> 0 | x # _ \<Rightarrow> x)"

definition Wire_endTransmission :: "u8 list \<Rightarrow> sys \<Rightarrow> nat \<times> sys" where
  "Wire_endTransmission bytes s =
     (let st = next_status s;
          s1 = s\<lparr>tx_status := tl (tx_status s)\<rparr>;
          s2 = (if st = 0 \<and> 2 \<le> length bytes
                then (let a = unat (bytes ! 0) * 256 + unat (bytes ! 1);
                          payload = drop 2 bytes
                      in s1\<lparr>mem := store_bytes a payload (mem s1),
                            dev_ptr := a + length payload\<rparr>)
                else s1)
      in (st, emit (BusWrite bytes st) s2))"

text \<open>
  Modelled from the spec: a read request for \<open>n\<close> bytes returns the bytes at the
  device's address pointer. The number of bytes that arrive is the next entry of
  \<open>rx_deliver\<close>, at most \<open>n\<close> (a bus with no entry left delivers all \<open>n\<close>). The result is
  the content of the Wire receive buffer, whose length is what \<open>Wire.available()\<close>
  returns.
\<close>

definition Wire_requestFrom :: "nat \<Rightarrow> sys \<Rightarrow> u8 list \<times> sys" where
  "Wire_requestFrom n s =
     (let k = (case rx_deliver s of [] \<Rightarrow> n | x # _ \<Rightarrow> min x n);
          bytes = map (\<lambda>j. mem s (dev_ptr s + j)) [0..<k];
          s1 = s\<lparr>rx_deliver := tl (rx_deliver s), dev_ptr := dev_ptr s + k\<rparr>
      in (bytes, emit (BusRead n k) s1))"

section \<open>Persistent store adapter\<close>

text \<open>The two address bytes: \<open>(address >> 8) & 0xFF\<close> and \<open>address & 0xFF\<close>.\<close>

definition addr_bytes :: "u16 \<Rightarrow> u8 list" where
  "addr_bytes address =
     [ucast (drop_bit 8 address AND 0xFF), ucast (address AND 0xFF)]"

text \<open>The four payload bytes of a word, most significant first.\<close>

definition word_bytes :: "u32 \<Rightarrow> u8 list" where
  "word_bytes v =
     [ucast (drop_bit 24 v AND 0xFF), ucast (drop_bit 16 v AND 0xFF),
      ucast (drop_bit 8 v AND 0xFF), ucast (v AND 0xFF)]"

text \<open>\<open>void writeEEPROM(int address, unsigned long value)\<close>\<close>

definition writeEEPROM :: "u16 \<Rightarrow> u32 \<Rightarrow> sys \<Rightarrow> sys" where
  "writeEEPROM address v s =
     (case Wire_endTransmission (addr_bytes address @ word_bytes v) s of
        (st, s1) \<Rightarrow>
          if st \<noteq> 0 then Serial_println ''I2C write failed!'' s1
          else delay 20 s1)"

text \<open>\<open>void writeEEPROM(int address, bool value)\<close>\<close>

definition writeEEPROM_bool :: "u16 \<Rightarrow> bool \<Rightarrow> sys \<Rightarrow> sys" where
  "writeEEPROM_bool address v s =
     (case Wire_endTransmission (addr_bytes address @ [if v then 1 else 0]) s of
        (st, s1) \<Rightarrow>
          if st \<noteq> 0 then Serial_println ''I2C write failed!'' s1
          else delay 20 s1)"

text \<open>
  \<open>unsigned long readEEPROM(int address)\<close>: the bytes are read only when exactly four
  are available; otherwise \<open>value\<close> keeps its initial 0.
\<close>

definition readEEPROM :: "u16 \<Rightarrow> sys \<Rightarrow> u32 \<times> sys" where
  "readEEPROM address s =
     (case Wire_endTransmission (addr_bytes address) s of
        (st, s1) \<Rightarrow>
          if st \<noteq> 0 then (0, Serial_println ''I2C read failed!'' s1)
          else (case Wire_requestFrom 4 s1 of
                  (bytes, s2) \<Rightarrow>
                    if length bytes = 4
                    then (0 OR push_bit 24 (ucast (bytes ! 0))
                            OR push_bit 16 (ucast (bytes ! 1))
                            OR push_bit 8 (ucast (bytes ! 2))
                            OR ucast (bytes ! 3), s2)
                    else (0, s2)))"

text \<open>\<open>byte readEEPROMByte(int address)\<close>\<close>

definition readEEPROMByte :: "u16 \<Rightarrow> sys \<Rightarrow> u8 \<times> sys" where
  "readEEPROMByte address s =
     (case Wire_endTransmission (addr_bytes address) s of
        (st, s1) \<Rightarrow>
          if st \<noteq> 0 then (0, Serial_println ''I2C read failed!'' s1)
          else (case Wire_requestFrom 1 s1 of
                  (bytes, s2) \<Rightarrow>
                    if length bytes = 1 then (bytes ! 0, s2) else (0, s2)))"

section \<open>Run-time dispatch\<close>

text \<open>
  The body of the \<open>if (value == buttonCodes[i])\<close> branch: flip the state in memory, drive
  the pin, report, then persist the new state at address \<open>16 + i\<close>.
\<close>

definition toggle_relay :: "nat \<Rightarrow> sys \<Rightarrow> sys" where
  "toggle_relay i s =
     (let s1 = s\<lparr>relayStates := (relayStates s)[i := \<not> relayStates s ! i]\<rparr>;
          s2 = digitalWrite (relayPins ! i) (relayStates s1 ! i) s1;
          s3 = Serial_print ''Relay '' s2;
          s4 = Serial_print_num (int i + 1) s3;
          s5 = Serial_println (if relayStates s4 ! i then '' ON'' else '' OFF'') s4
      in writeEEPROM_bool (of_nat (16 + i)) (relayStates s5 ! i) s5)"

text \<open>\<open>for (int i = 0; i < 4; i++) { if (value == buttonCodes[i]) { ...; break; } }\<close>\<close>

function match_loop :: "nat \<Rightarrow> u32 \<Rightarrow> sys \<Rightarrow> sys" where
  "match_loop i v s =
     (if i < 4
      then (if v = buttonCodes s ! i then toggle_relay i s
            else match_loop (Suc i) v s)
      else s)"
  by pat_completeness auto
termination
  by (relation "measure (\<lambda>(i, v, s). 4 - i)") auto

definition handleRFInput :: "sys \<Rightarrow> sys" where
  "handleRFInput s =
     (if rx_available s
      then (let v = rx_value s;
                s1 = (if v = 0 then Serial_println ''Unknown encoding'' s
                      else if v \<noteq> lastReceivedCode s
                              \<or> millis s - lastReceivedTime s > debounceTime
                      then (let s2 = Serial_print ''Received: '' s;
                                s3 = Serial_println_num (uint v) s2;
                                s4 = match_loop 0 v s3;
                                s5 = s4\<lparr>lastReceivedCode := v\<rparr>
                            in s5\<lparr>lastReceivedTime := millis s5\<rparr>)
                      else s)
            in resetAvailable s1)
      else s)"

section \<open>Learning mode\<close>

text \<open>
  What the outside world did since the previous poll: the milliseconds that went by,
  the code the receiver decoded if it decoded one (it replaces the pending value and
  raises the available flag), and the level of the learn button. Time passes in the
  observations and in \<open>delay\<close>; the statements between two polls take none. A
  code decoded during a \<open>delay\<close> is not modelled: both callers clear the
  receiver's flag after the delay and before the next poll.
\<close>

datatype obs = Obs (elapsed: u32) (signal: "u32 option") (button: bool)

definition env :: "obs \<Rightarrow> sys \<Rightarrow> sys" where
  "env ob s =
     s\<lparr>clock := clock s + elapsed ob,
       rx_available := (case signal ob of None \<Rightarrow> rx_available s | Some v \<Rightarrow> True),
       rx_value := (case signal ob of None \<Rightarrow> rx_value s | Some v \<Rightarrow> v),
       button_low := button ob\<rparr>"

text \<open>The accepting branch of the capture loop, for the received \<open>value\<close>.\<close>

definition capture :: "u32 \<Rightarrow> sys \<Rightarrow> sys" where
  "capture v s =
     (let s1 = s\<lparr>buttonCodes := (buttonCodes s)[learnStep s := v]\<rparr>;
          s2 = writeEEPROM (of_nat (learnStep s1 * 4)) v s1;
          s3 = Serial_print ''Saved code for Relay '' s2;
          s4 = Serial_print_num (int (learnStep s3) + 1) s3;
          s5 = Serial_print '': '' s4;
          s6 = Serial_println_num (uint v) s5;
          s7 = s6\<lparr>learnStep := learnStep s6 + 1\<rparr>;
          s8 = (if learnStep s7 \<ge> 4
                then Serial_println ''Learning mode complete!'' (s7\<lparr>learningMode := False\<rparr>)
                else (let d = delay 2000 s7;
                          p = Serial_print ''Now press the button for Relay '' d
                      in Serial_println_num (int (learnStep p) + 1) p));
          s9 = s8\<lparr>lastReceivedCode := v\<rparr>
      in resetAvailable s9)"

text \<open>One pass through the body of \<open>while (learningMode)\<close>.\<close>

definition learn_body :: "sys \<Rightarrow> sys" where
  "learn_body s =
     (let s1 = (if rx_available s
                then (let v = rx_value s
                      in if v \<noteq> 0 \<and> v \<noteq> lastReceivedCode s then capture v s else s)
                else s)
      in if millis s1 - learningModeStartTime s1 > learningModeTimeout
         then Serial_println ''Learning mode timeout. Exiting...'' (s1\<lparr>learningMode := False\<rparr>)
         else s1)"

text \<open>
  The blocking loop polls the receiver and the clock; each pass sees one observation
  of the outside world. The loop returns when \<open>learningMode\<close> is false, with the
  observations it did not consume. When the observations run out first, the result is
  the state inside the loop, with \<open>learningMode\<close> still true.
\<close>

fun learn_loop :: "sys \<Rightarrow> obs list \<Rightarrow> sys \<times> obs list" where
  "learn_loop s [] = (s, [])"
| "learn_loop s (ob # obs) =
     (if learningMode s then learn_loop (learn_body (env ob s)) obs
      else (s, ob # obs))"

definition enterLearningMode :: "sys \<Rightarrow> obs list \<Rightarrow> sys \<times> obs list" where
  "enterLearningMode s obs =
     (let s1 = s\<lparr>learningMode := True\<rparr>;
          s2 = s1\<lparr>learnStep := 0\<rparr>;
          s3 = s2\<lparr>learningModeStartTime := millis s2\<rparr>;
          s4 = Serial_println ''LEARNING MODE: Press the remote button for Relay 1'' s3
      in learn_loop s4 obs)"

section \<open>Startup and the main loop\<close>

text \<open>The globals as their initialisers leave them, on a board with the given hardware.\<close>

definition power_on :: "(nat \<Rightarrow> u8) \<Rightarrow> nat list \<Rightarrow> nat list \<Rightarrow> sys" where
  "power_on m txs rxs =
     \<lparr>relayStates = [False, False, False, False],
      buttonCodes = [0, 0, 0, 0],
      learningMode = False,
      learnStep = 0,
      lastReceivedTime = 0,
      lastReceivedCode = 0,
      lastDebounceTime = 0,
      learningModeStartTime = 0,
      clock = 0,
      rx_available = False,
      rx_value = 0,
      button_low = False,
      mem = m,
      dev_ptr = 0,
      tx_status = txs,
      rx_deliver = rxs,
      trace = []\<rparr>"

definition load_slot :: "nat \<Rightarrow> sys \<Rightarrow> sys" where
  "load_slot i s =
     (case readEEPROM (of_nat (i * 4)) s of
        (v, s1) \<Rightarrow>
          (case readEEPROMByte (of_nat (16 + i)) (s1\<lparr>buttonCodes := (buttonCodes s1)[i := v]\<rparr>) of
             (b, s2) \<Rightarrow> s2\<lparr>relayStates := (relayStates s2)[i := (b \<noteq> 0)]\<rparr>))"

definition report_slot :: "nat \<Rightarrow> sys \<Rightarrow> sys" where
  "report_slot i s =
     (let s1 = Serial_print ''Relay '' s;
          s2 = Serial_print_num (int i + 1) s1;
          s3 = Serial_print '': Code = '' s2;
          s4 = Serial_print_num (uint (buttonCodes s3 ! i)) s3;
          s5 = Serial_print '', State = '' s4
      in Serial_println (if relayStates s5 ! i then ''ON'' else ''OFF'') s5)"

text \<open>
  The function \<open>setup()\<close> of the sketch. Configuring the serial port, the pin modes, the bus and the receiver
  has no effect on the state modelled here.
\<close>

definition setup_fn :: "sys \<Rightarrow> sys" where
  "setup_fn s =
     (let s1 = fold (\<lambda>i. digitalWrite (relayPins ! i) False) [0..<4] s;
          s2 = fold load_slot [0..<4] s1;
          s3 = fold (\<lambda>i t. digitalWrite (relayPins ! i) (relayStates t ! i) t) [0..<4] s2;
          s4 = Serial_println ''Setup complete. Current codes and relay states:'' s3
      in fold report_slot [0..<4] s4)"

text \<open>
  \<open>loop()\<close>, on the state as the latest observation left it. When the observations run
  out inside the capture loop, the program is still there and nothing after the call
  has run.
\<close>

definition loop :: "sys \<Rightarrow> obs list \<Rightarrow> sys \<times> obs list" where
  "loop s obs =
     (if button_low s \<and> millis s - lastDebounceTime s > debounceDelay
      then (case enterLearningMode s obs of
              (s1, obs1) \<Rightarrow>
                if learningMode s1 then (s1, obs1)
                else (let s2 = s1\<lparr>lastDebounceTime := millis s1\<rparr>
                      in (if \<not> learningMode s2 then handleRFInput s2 else s2, obs1)))
      else (if \<not> learningMode s then handleRFInput s else s, obs))"

text \<open>
  The main program after startup: \<open>loop()\<close> is called again and again, and the outside
  world moves on by one observation before each call.
\<close>

function run :: "sys \<Rightarrow> obs list \<Rightarrow> sys" where
  "run s [] = s"
| "run s (ob # obs) =
     (case loop (env ob s) obs of
        (s1, obs1) \<Rightarrow> if learningMode s1 then s1 else run s1 obs1)"
  by pat_completeness auto
termination
proof (relation "measure (\<lambda>(s, obs). length obs)")
  show "wf (measure (\<lambda>(s, obs). length obs))"
    by simp
next
  fix s :: sys and ob obs s1 obs1
  assume p: "(s1, obs1) = loop (env ob s) obs" and "\<not> learningMode s1"
  have learn: "length (snd (learn_loop t os)) \<le> length os" for t os
    by (induction os arbitrary: t) (auto intro: le_SucI)
  have "length (snd (loop t os)) \<le> length os" for t os
    using learn [of _ os]
    by (auto simp: loop_def enterLearningMode_def Let_def split: prod.splits)
      (metis snd_conv)+
  from this [of "env ob s" obs] p have "length obs1 \<le> length obs"
    by (metis snd_conv)
  then show "((s1, obs1), (s, ob # obs)) \<in> measure (\<lambda>(s, obs). length obs)"
    by simp
qed

section \<open>Vocabulary for the statements\<close>

text \<open>The next \<open>n\<close> bus transmissions are acknowledged.\<close>

definition bus_acks :: "nat \<Rightarrow> sys \<Rightarrow> bool" where
  "bus_acks n s = list_all (\<lambda>x. x = 0) (take n (tx_status s))"

text \<open>The next bus transmission fails with status \<open>st\<close>.\<close>

definition bus_nacks :: "nat \<Rightarrow> sys \<Rightarrow> bool" where
  "bus_nacks st s = (st \<noteq> 0 \<and> (case tx_status s of [] \<Rightarrow> False | x # _ \<Rightarrow> x = st))"

text \<open>The next read request delivers at least \<open>n\<close> bytes.\<close>

definition bus_delivers :: "nat \<Rightarrow> sys \<Rightarrow> bool" where
  "bus_delivers n s = (case rx_deliver s of [] \<Rightarrow> True | x # _ \<Rightarrow> n \<le> x)"

text \<open>The pin levels driven and the bus transmissions made, in the order of a trace.\<close>

fun pin_writes :: "effect list \<Rightarrow> (nat \<times> bool) list" where
  "pin_writes [] = []"
| "pin_writes (PinWrite p l # es) = (p, l) # pin_writes es"
| "pin_writes (e # es) = pin_writes es"

fun bus_writes :: "effect list \<Rightarrow> (u8 list \<times> nat) list" where
  "bus_writes [] = []"
| "bus_writes (BusWrite bs st # es) = (bs, st) # bus_writes es"
| "bus_writes (e # es) = bus_writes es"

text \<open>What a call added to the trace.\<close>

definition new_trace :: "sys \<Rightarrow> sys \<Rightarrow> effect list" where
  "new_trace s s' = drop (length (trace s)) (trace s')"

text \<open>The condition under which the dispatcher accepts a non-zero code.\<close>

definition passes_filter :: "sys \<Rightarrow> bool" where
  "passes_filter s =
     (rx_value s \<noteq> lastReceivedCode s \<or> millis s - lastReceivedTime s > debounceTime)"

text \<open>An erased EEPROM, and the board it is on, with a healthy bus.\<close>

definition erased :: "nat \<Rightarrow> u8" where
  "erased a = 0xFF"

definition board :: sys where
  "board = power_on erased [] []"

text \<open>What a toggle of slot \<open>i\<close> adds to the trace when the relay was in state \<open>old\<close>.\<close>

definition toggle_trace :: "nat \<Rightarrow> bool \<Rightarrow> nat \<Rightarrow> effect list" where
  "toggle_trace i old st =
     [PinWrite (relayPins ! i) (\<not> old),
      Print ''Relay '', PrintNum (int i + 1), PrintLn (if \<not> old then '' ON'' else '' OFF''),
      BusWrite [0, of_nat (16 + i), if \<not> old then 1 else 0] st]
     @ (if st = 0 then [Delay 20] else [PrintLn ''I2C write failed!''])"

text \<open>The state in which the scan for a match starts.\<close>

definition announced :: "sys \<Rightarrow> sys" where
  "announced s = s\<lparr>trace := trace s @ [Print ''Received: '', PrintNumLn (uint (rx_value s))]\<rparr>"

text \<open>The condition under which a pass of the capture loop takes the received code.\<close>

definition takes :: "sys \<Rightarrow> bool" where
  "takes s = (rx_available s \<and> rx_value s \<noteq> 0 \<and> rx_value s \<noteq> lastReceivedCode s)"

text \<open>The timeout check at the end of a pass.\<close>

definition check_timeout :: "sys \<Rightarrow> sys" where
  "check_timeout s =
     (if clock s - learningModeStartTime s > learningModeTimeout
      then s\<lparr>learningMode := False,
             trace := trace s @ [PrintLn ''Learning mode timeout. Exiting...'']\<rparr>
      else s)"

text \<open>The milliseconds on the counter since the session started.\<close>

definition since_start :: "sys \<Rightarrow> nat" where
  "since_start s = unat (clock s - learningModeStartTime s)"

text \<open>The milliseconds that go by during a list of observations.\<close>

definition span :: "obs list \<Rightarrow> nat" where
  "span obs = sum_list (map (\<lambda>ob. unat (elapsed ob)) obs)"

text \<open>The codes the receiver decodes during a list of observations, in order.\<close>

fun signals :: "obs list \<Rightarrow> u32 list" where
  "signals [] = []"
| "signals (ob # obs) = (case signal ob of None \<Rightarrow> signals obs | Some v \<Rightarrow> v # signals obs)"

text \<open>Every code is non-zero and differs from the one before it; the first, from \<open>l\<close>.\<close>

fun chain_ok :: "u32 \<Rightarrow> u32 list \<Rightarrow> bool" where
  "chain_ok l [] = True"
| "chain_ok l (c # cs) = (c \<noteq> 0 \<and> c \<noteq> l \<and> chain_ok c cs)"

text \<open>The state in which the capture loop starts.\<close>

definition session_start :: "sys \<Rightarrow> sys" where
  "session_start s =
     s\<lparr>learningMode := True, learnStep := 0, learningModeStartTime := clock s,
       trace := trace s @ [PrintLn ''LEARNING MODE: Press the remote button for Relay 1'']\<rparr>"

text \<open>A board whose registry holds the codes 5, 6, 7 and 6 again, with relay 2 on.\<close>

definition paired :: sys where
  "paired = board\<lparr>relayStates := [False, True, False, False], buttonCodes := [5, 6, 7, 6]\<rparr>"

text \<open>The code of slot 1 is received three times: 10, 410 and 1110 ms after start.\<close>

definition heard_once :: sys where
  "heard_once = handleRFInput (env (Obs 10 (Some 6) False) paired)"

definition heard_twice :: sys where
  "heard_twice = handleRFInput (env (Obs 400 (Some 6) True) heard_once)"

definition heard_thrice :: sys where
  "heard_thrice = handleRFInput (env (Obs 700 (Some 6) False) heard_twice)"

text \<open>The paired board on a bus whose next transmission is not acknowledged, and on one
  whose next read request delivers nothing.\<close>

definition paired_nack :: sys where
  "paired_nack = paired\<lparr>tx_status := [2]\<rparr>"

definition paired_short :: sys where
  "paired_short = paired\<lparr>rx_deliver := [0]\<rparr>"

text \<open>Startup on a board whose first bus transmission is not acknowledged.\<close>

definition cold_start_nack :: sys where
  "cold_start_nack = setup_fn (power_on erased [2] [])"

text \<open>
  The board after startup, once the dispatcher has received the code 5: no slot of an
  erased store holds it, and it becomes the last received code.
\<close>

definition stale :: sys where
  "stale = handleRFInput (env (Obs 100 (Some 5) False) (setup_fn board))"



text \<open>Four codes shown to the paired board with an idle poll in between; and one code
  shown after 200 s, followed by an idle poll 150 s later, which is past the window
  counted from entry though not from the capture.\<close>

definition four_shown :: "obs list" where
  "four_shown =
     [Obs 100 (Some 9) False, Obs 50 None False, Obs 100 (Some 8) False,
      Obs 100 (Some 9) False, Obs 100 (Some 3) True]"

definition one_shown_then_late :: "obs list" where
  "one_shown_then_late =
     [Obs 200000 (Some 9) False, Obs 150000 None False, Obs 1 None False]"

section \<open>Bytes of addresses and words\<close>

lemma ff_mask16: "(0xFF :: u16) = mask 8"
  by (simp add: mask_eq_decr_exp)

lemma ff_mask32: "(0xFF :: u32) = mask 8"
  by (simp add: mask_eq_decr_exp)

lemma length_addr_bytes [simp]: "length (addr_bytes a) = 2"
  by (simp add: addr_bytes_def)

lemma length_word_bytes [simp]: "length (word_bytes v) = 4"
  by (simp add: word_bytes_def)

lemma addr_bytes_value:
  "unat (addr_bytes a ! 0) * 256 + unat (addr_bytes a ! 1) = unat a"
proof -
  have "unat a < 2 ^ 16"
    using unsigned_less [of a, where ?'a = nat] by simp
  then have small: "drop_bit 8 (unat a) < 2 ^ 8"
    by (simp add: drop_bit_eq_div less_mult_imp_div_less)
  have hi: "unat (ucast (drop_bit 8 a AND mask 8) :: u8) = drop_bit 8 (unat a)"
    using small
    by (simp add: unsigned_ucast_eq unsigned_take_bit_eq unat_drop_bit_eq take_bit_nat_eq_self
        flip: take_bit_eq_mask)
  have lo: "unat (ucast (a AND mask 8) :: u8) = take_bit 8 (unat a)"
    by (simp add: unsigned_ucast_eq unsigned_take_bit_eq flip: take_bit_eq_mask)
  have "drop_bit 8 (unat a) * 256 + take_bit 8 (unat a) = unat a"
    using bits_ident [of 8 "unat a"] by (simp add: push_bit_eq_mult mult.commute)
  then show ?thesis
    unfolding addr_bytes_def ff_mask16 using hi lo by simp
qed

lemma byte_of: "ucast (drop_bit k (v::u32) AND 0xFF) = (ucast (drop_bit k v) :: u8)"
  unfolding ff_mask32
  by (rule bit_word_eqI) (auto simp add: bit_simps)

lemma word_bytes_join:
  "0 OR push_bit 24 (ucast (word_bytes v ! 0)) OR push_bit 16 (ucast (word_bytes v ! 1))
     OR push_bit 8 (ucast (word_bytes v ! 2)) OR ucast (word_bytes v ! 3) = v"
proof -
  have b: "v AND 0xFF = drop_bit 0 v AND 0xFF" by simp
  show ?thesis
    unfolding word_bytes_def
    apply (simp only: nth_Cons_0 nth_Cons_numeral nth_Cons_Suc numeral_2_eq_2 numeral_3_eq_3 One_nat_def)
    apply (subst b)
    apply (simp only: byte_of)
    apply (rule bit_word_eqI)
    apply (simp add: bit_simps)
    subgoal for n
      by (cases "24 \<le> n"; cases "16 \<le> n"; cases "8 \<le> n"; simp add: less_diff_conv2 add.commute)
    done
qed

section \<open>Bus transactions\<close>

lemma bus_acks_head: "bus_acks (Suc n) s \<Longrightarrow> next_status s = 0"
  by (cases "tx_status s") (simp_all add: bus_acks_def next_status_def)

lemma bus_nacks_head: "bus_nacks st s \<Longrightarrow> next_status s = st"
  by (cases "tx_status s") (simp_all add: bus_nacks_def next_status_def)

lemma bus_acks_tail:
  "bus_acks (Suc n) s \<Longrightarrow> tx_status s' = tl (tx_status s) \<Longrightarrow> bus_acks n s'"
  by (cases "tx_status s") (simp_all add: bus_acks_def)

lemma endTransmission_ack:
  assumes "bus_acks (Suc n) s"
  shows "Wire_endTransmission (addr_bytes a @ payload) s =
    (0, s\<lparr>mem := store_bytes (unat a) payload (mem s),
          dev_ptr := unat a + length payload,
          tx_status := tl (tx_status s),
          trace := trace s @ [BusWrite (addr_bytes a @ payload) 0]\<rparr>)"
proof -
  have "unat ((addr_bytes a @ payload) ! 0) * 256 + unat ((addr_bytes a @ payload) ! 1) = unat a"
    using addr_bytes_value [of a] by (simp add: nth_append)
  then show ?thesis
    using bus_acks_head [OF assms]
    by (simp add: Wire_endTransmission_def Let_def emit_def)
qed

lemma endTransmission_nack:
  assumes "bus_nacks st s"
  shows "Wire_endTransmission bytes s =
    (st, s\<lparr>tx_status := tl (tx_status s), trace := trace s @ [BusWrite bytes st]\<rparr>)"
  using assms bus_nacks_head [OF assms]
  by (simp add: bus_nacks_def Wire_endTransmission_def Let_def emit_def)

lemma requestFrom_full:
  assumes "bus_delivers n s"
  shows "Wire_requestFrom n s =
    (map (\<lambda>j. mem s (dev_ptr s + j)) [0..<n],
     s\<lparr>dev_ptr := dev_ptr s + n, rx_deliver := tl (rx_deliver s),
       trace := trace s @ [BusRead n n]\<rparr>)"
  using assms
  by (cases "rx_deliver s") (simp_all add: bus_delivers_def Wire_requestFrom_def Let_def emit_def min_def)

lemma requestFrom_short:
  assumes "\<not> bus_delivers n s"
  shows "length (fst (Wire_requestFrom n s)) < n"
  using assms
  by (cases "rx_deliver s") (simp_all add: bus_delivers_def Wire_requestFrom_def Let_def emit_def)

lemma store_bytes_outside:
  "x < a \<or> a + length bs \<le> x \<Longrightarrow> store_bytes a bs m x = m x"
  by (induction a bs m rule: store_bytes.induct) auto

lemma store_bytes_inside:
  "j < length bs \<Longrightarrow> store_bytes a bs m (a + j) = bs ! j"
proof (induction a bs m arbitrary: j rule: store_bytes.induct)
  case (1 a m)
  then show ?case by simp
next
  case (2 a b bs m)
  show ?case
  proof (cases j)
    case 0
    then show ?thesis by (simp add: store_bytes_outside)
  next
    case (Suc k)
    then have "k < length bs" using "2.prems" by simp
    from "2.IH" [OF this] show ?thesis using Suc by (simp add: fun_upd_def)
  qed
qed

lemma map_upt_shift: "map f [a..<a + n] = map (\<lambda>j. f (a + j)) [0..<n]"
  by (induction n) simp_all

lemma map_store_bytes:
  "map (\<lambda>j. store_bytes a bs m (a + j)) [0..<length bs] = bs"
  by (rule nth_equalityI) (simp_all add: store_bytes_inside)

section \<open>The store adapter\<close>

lemma writeEEPROM_ack:
  assumes "bus_acks (Suc n) s"
  shows "writeEEPROM a v s =
    s\<lparr>clock := clock s + 20,
      mem := store_bytes (unat a) (word_bytes v) (mem s),
      dev_ptr := unat a + 4,
      tx_status := tl (tx_status s),
      trace := trace s @ [BusWrite (addr_bytes a @ word_bytes v) 0, Delay 20]\<rparr>"
  by (simp add: writeEEPROM_def endTransmission_ack [OF assms] delay_def emit_def)

lemma writeEEPROM_nack:
  assumes "bus_nacks st s"
  shows "writeEEPROM a v s =
    s\<lparr>tx_status := tl (tx_status s),
      trace := trace s @ [BusWrite (addr_bytes a @ word_bytes v) st, PrintLn ''I2C write failed!'']\<rparr>"
  using assms
  by (simp add: writeEEPROM_def endTransmission_nack [OF assms] Serial_println_def emit_def
      bus_nacks_def)

lemma writeEEPROM_bool_ack:
  assumes "bus_acks (Suc n) s"
  shows "writeEEPROM_bool a b s =
    s\<lparr>clock := clock s + 20,
      mem := (mem s)(unat a := if b then 1 else 0),
      dev_ptr := unat a + 1,
      tx_status := tl (tx_status s),
      trace := trace s @ [BusWrite (addr_bytes a @ [if b then 1 else 0]) 0, Delay 20]\<rparr>"
  by (simp add: writeEEPROM_bool_def endTransmission_ack [OF assms] delay_def emit_def)

lemma writeEEPROM_bool_nack:
  assumes "bus_nacks st s"
  shows "writeEEPROM_bool a b s =
    s\<lparr>tx_status := tl (tx_status s),
      trace := trace s @ [BusWrite (addr_bytes a @ [if b then 1 else 0]) st,
                          PrintLn ''I2C write failed!'']\<rparr>"
  using assms
  by (simp add: writeEEPROM_bool_def endTransmission_nack [OF assms] Serial_println_def emit_def
      bus_nacks_def)

lemma readEEPROM_nack:
  assumes "bus_nacks st s"
  shows "readEEPROM a s =
    (0, s\<lparr>tx_status := tl (tx_status s),
          trace := trace s @ [BusWrite (addr_bytes a) st, PrintLn ''I2C read failed!'']\<rparr>)"
  using assms
  by (simp add: readEEPROM_def endTransmission_nack [OF assms] Serial_println_def emit_def
      bus_nacks_def)

lemma readEEPROMByte_nack:
  assumes "bus_nacks st s"
  shows "readEEPROMByte a s =
    (0, s\<lparr>tx_status := tl (tx_status s),
          trace := trace s @ [BusWrite (addr_bytes a) st, PrintLn ''I2C read failed!'']\<rparr>)"
  using assms
  by (simp add: readEEPROMByte_def endTransmission_nack [OF assms] Serial_println_def emit_def
      bus_nacks_def)

lemma address_phase:
  assumes "bus_acks (Suc n) s"
  shows "Wire_endTransmission (addr_bytes a) s =
    (0, s\<lparr>dev_ptr := unat a, tx_status := tl (tx_status s),
          trace := trace s @ [BusWrite (addr_bytes a) 0]\<rparr>)"
  using endTransmission_ack [OF assms, of a "[]"] by simp

lemma readEEPROM_short:
  assumes "bus_acks (Suc n) s" and "\<not> bus_delivers 4 s"
  shows "fst (readEEPROM a s) = 0"
proof -
  let ?s1 = "s\<lparr>dev_ptr := unat a, tx_status := tl (tx_status s),
               trace := trace s @ [BusWrite (addr_bytes a) 0]\<rparr>"
  have "\<not> bus_delivers 4 ?s1"
    using assms(2) by (simp add: bus_delivers_def)
  from requestFrom_short [OF this] obtain bs s2
    where "Wire_requestFrom 4 ?s1 = (bs, s2)" and "length bs < 4"
    by (cases "Wire_requestFrom 4 ?s1") simp
  then show ?thesis
    by (simp add: readEEPROM_def address_phase [OF assms(1)])
qed

lemma readEEPROMByte_short:
  assumes "bus_acks (Suc n) s" and "\<not> bus_delivers 1 s"
  shows "fst (readEEPROMByte a s) = 0"
proof -
  let ?s1 = "s\<lparr>dev_ptr := unat a, tx_status := tl (tx_status s),
               trace := trace s @ [BusWrite (addr_bytes a) 0]\<rparr>"
  have "\<not> bus_delivers 1 ?s1"
    using assms(2) by (simp add: bus_delivers_def)
  from requestFrom_short [OF this] obtain bs s2
    where "Wire_requestFrom 1 ?s1 = (bs, s2)" and "length bs < 1"
    by (cases "Wire_requestFrom 1 ?s1") simp
  then show ?thesis
    by (simp add: readEEPROMByte_def address_phase [OF assms(1)])
qed

lemma readEEPROM_full:
  assumes "bus_acks (Suc n) s" and "bus_delivers 4 s"
    and "map (\<lambda>j. mem s (unat a + j)) [0..<4] = word_bytes v"
  shows "fst (readEEPROM a s) = v"
proof -
  let ?s1 = "s\<lparr>dev_ptr := unat a, tx_status := tl (tx_status s),
               trace := trace s @ [BusWrite (addr_bytes a) 0]\<rparr>"
  have d: "bus_delivers 4 ?s1"
    using assms(2) by (simp add: bus_delivers_def)
  have "fst (Wire_requestFrom 4 ?s1) = word_bytes v"
    using assms(3) by (simp add: requestFrom_full [OF d])
  then obtain s2 where "Wire_requestFrom 4 ?s1 = (word_bytes v, s2)"
    by (cases "Wire_requestFrom 4 ?s1") simp
  then show ?thesis
    using word_bytes_join [of v]
    by (simp add: readEEPROM_def address_phase [OF assms(1)])
qed

lemma slot_address: "slot < 4 \<Longrightarrow> unat (of_nat (slot * 4) :: u16) = slot * 4"
  unfolding unat_of_nat by simp

lemma state_address: "i < 4 \<Longrightarrow> unat (of_nat (16 + i) :: u16) = 16 + i"
  unfolding unat_of_nat by simp

text \<open>
  C6. Round trip through the store: for every slot below 4 and every 32-bit code, when
  the write transmission and the address transmission of the read are acknowledged and
  the read request delivers its four bytes, writing the code at offset \<open>slot * 4\<close> and
  reading that offset back returns the code; the four bytes at the offset are the bytes
  of the code, most significant first.
\<close>

theorem eeprom_roundtrip:
  assumes "slot < 4" and "bus_acks 2 s" and "bus_delivers 4 s"
  shows "fst (readEEPROM (of_nat (slot * 4)) (writeEEPROM (of_nat (slot * 4)) code s)) = code
    \<and> map (mem (writeEEPROM (of_nat (slot * 4)) code s)) [slot * 4 ..< slot * 4 + 4] =
        [ucast (drop_bit 24 code), ucast (drop_bit 16 code), ucast (drop_bit 8 code), ucast code]"
proof -
  define a :: u16 where "a = of_nat (slot * 4)"
  define w where "w = writeEEPROM a code s"
  have ua: "unat a = slot * 4"
    unfolding a_def by (rule slot_address [OF assms(1)])
  have acks: "bus_acks (Suc 1) s"
    using assms(2) by (simp add: numeral_2_eq_2)
  have w: "w = s\<lparr>clock := clock s + 20,
      mem := store_bytes (unat a) (word_bytes code) (mem s),
      dev_ptr := unat a + 4,
      tx_status := tl (tx_status s),
      trace := trace s @ [BusWrite (addr_bytes a @ word_bytes code) 0, Delay 20]\<rparr>"
    unfolding w_def by (rule writeEEPROM_ack [OF acks])
  have stored: "map (\<lambda>j. mem w (unat a + j)) [0..<4] = word_bytes code"
    using map_store_bytes [of "unat a" "word_bytes code" "mem s"] by (simp add: w)
  have "bus_acks (Suc 0) w"
    using bus_acks_tail [OF acks, of w] by (simp add: w)
  moreover have "bus_delivers 4 w"
    using assms(3) by (simp add: w bus_delivers_def)
  ultimately have "fst (readEEPROM a w) = code"
    using stored by (rule readEEPROM_full)
  moreover have "map (mem w) [slot * 4 ..< slot * 4 + 4] = word_bytes code"
  proof -
    have "map (mem w) [slot * 4 ..< slot * 4 + 4] = map (\<lambda>j. mem w (slot * 4 + j)) [0..<4]"
      by (rule map_upt_shift)
    then show ?thesis
      using stored by (simp add: ua)
  qed
  moreover have "word_bytes code =
      [ucast (drop_bit 24 code), ucast (drop_bit 16 code), ucast (drop_bit 8 code), ucast code]"
    using byte_of [of 0 code] by (simp add: word_bytes_def byte_of)
  ultimately show ?thesis
    unfolding w_def a_def by simp
qed

theorem eeprom_roundtrip_witness:
  "(2::nat) < 4 \<and> bus_acks 2 board \<and> bus_delivers 4 board
   \<and> fst (readEEPROM 8 (writeEEPROM 8 0x01020304 board)) = 0x01020304
   \<and> map (mem (writeEEPROM 8 0x01020304 board)) [8, 9, 10, 11] = [1, 2, 3, 4]"
proof -
  have a: "(2::nat) < 4" by simp
  have b: "bus_acks 2 board" by (simp add: bus_acks_def board_def power_on_def)
  have c: "bus_delivers 4 board" by (simp add: bus_delivers_def board_def power_on_def)
  have u: "[2 * 4 ..< 2 * 4 + 4] = [8, 9, 10, 11::nat]"
    by (simp add: upt_rec)
  from eeprom_roundtrip [OF a b c, of "0x01020304"] a b c show ?thesis
    unfolding u by (simp add: drop_bit_eq_div)
qed

section \<open>Run-time dispatch\<close>

lemma next_status_update [simp]:
  "next_status (relayStates_update f0 s) = next_status s"
  "next_status (buttonCodes_update f1 s) = next_status s"
  "next_status (learningMode_update f2 s) = next_status s"
  "next_status (learnStep_update f3 s) = next_status s"
  "next_status (lastReceivedTime_update f4 s) = next_status s"
  "next_status (lastReceivedCode_update f5 s) = next_status s"
  "next_status (lastDebounceTime_update f6 s) = next_status s"
  "next_status (learningModeStartTime_update f7 s) = next_status s"
  "next_status (clock_update f8 s) = next_status s"
  "next_status (rx_available_update f9 s) = next_status s"
  "next_status (rx_value_update f10 s) = next_status s"
  "next_status (button_low_update f11 s) = next_status s"
  "next_status (mem_update f12 s) = next_status s"
  "next_status (dev_ptr_update f13 s) = next_status s"
  "next_status (rx_deliver_update f14 s) = next_status s"
  "next_status (trace_update f15 s) = next_status s"
  by (simp_all add: next_status_def)

lemma endTransmission_eq:
  "Wire_endTransmission (addr_bytes a @ payload) s =
    (next_status s,
     if next_status s = 0
     then s\<lparr>mem := store_bytes (unat a) payload (mem s),
            dev_ptr := unat a + length payload,
            tx_status := tl (tx_status s),
            trace := trace s @ [BusWrite (addr_bytes a @ payload) 0]\<rparr>
     else s\<lparr>tx_status := tl (tx_status s),
            trace := trace s @ [BusWrite (addr_bytes a @ payload) (next_status s)]\<rparr>)"
proof -
  have "unat ((addr_bytes a @ payload) ! 0) * 256 + unat ((addr_bytes a @ payload) ! 1) = unat a"
    using addr_bytes_value [of a] by (simp add: nth_append)
  then show ?thesis
    by (simp add: Wire_endTransmission_def Let_def emit_def)
qed

lemma writeEEPROM_bool_eq:
  "writeEEPROM_bool a b s =
    (if next_status s = 0
     then s\<lparr>clock := clock s + 20,
            mem := (mem s)(unat a := if b then 1 else 0),
            dev_ptr := unat a + 1,
            tx_status := tl (tx_status s),
            trace := trace s @ [BusWrite (addr_bytes a @ [if b then 1 else 0]) 0, Delay 20]\<rparr>
     else s\<lparr>tx_status := tl (tx_status s),
            trace := trace s @ [BusWrite (addr_bytes a @ [if b then 1 else 0]) (next_status s),
                                PrintLn ''I2C write failed!'']\<rparr>)"
  by (simp add: writeEEPROM_bool_def endTransmission_eq delay_def Serial_println_def emit_def)

lemma writeEEPROM_eq:
  "writeEEPROM a v s =
    (if next_status s = 0
     then s\<lparr>clock := clock s + 20,
            mem := store_bytes (unat a) (word_bytes v) (mem s),
            dev_ptr := unat a + 4,
            tx_status := tl (tx_status s),
            trace := trace s @ [BusWrite (addr_bytes a @ word_bytes v) 0, Delay 20]\<rparr>
     else s\<lparr>tx_status := tl (tx_status s),
            trace := trace s @ [BusWrite (addr_bytes a @ word_bytes v) (next_status s),
                                PrintLn ''I2C write failed!'']\<rparr>)"
  by (simp add: writeEEPROM_def endTransmission_eq delay_def Serial_println_def emit_def)

lemma slot_cases: "i < 4 \<Longrightarrow> i = 0 \<or> i = 1 \<or> i = 2 \<or> i = (3::nat)"
  by arith

lemma state_addr_bytes: "i < 4 \<Longrightarrow> addr_bytes (of_nat (16 + i)) = [0, of_nat (16 + i)]"
  by (drule slot_cases) (auto simp: addr_bytes_def)

lemma writeEEPROM_bool_same [simp]:
  "relayStates (writeEEPROM_bool a b s) = relayStates s"
  "buttonCodes (writeEEPROM_bool a b s) = buttonCodes s"
  "learningMode (writeEEPROM_bool a b s) = learningMode s"
  "learnStep (writeEEPROM_bool a b s) = learnStep s"
  "lastReceivedTime (writeEEPROM_bool a b s) = lastReceivedTime s"
  "lastReceivedCode (writeEEPROM_bool a b s) = lastReceivedCode s"
  "lastDebounceTime (writeEEPROM_bool a b s) = lastDebounceTime s"
  "learningModeStartTime (writeEEPROM_bool a b s) = learningModeStartTime s"
  "rx_available (writeEEPROM_bool a b s) = rx_available s"
  "rx_value (writeEEPROM_bool a b s) = rx_value s"
  "button_low (writeEEPROM_bool a b s) = button_low s"
  "rx_deliver (writeEEPROM_bool a b s) = rx_deliver s"
  by (simp_all add: writeEEPROM_bool_eq)

lemma writeEEPROM_bool_changes:
  "clock (writeEEPROM_bool a b s) = (if next_status s = 0 then clock s + 20 else clock s)"
  "mem (writeEEPROM_bool a b s) =
     (if next_status s = 0 then (mem s)(unat a := if b then 1 else 0) else mem s)"
  "tx_status (writeEEPROM_bool a b s) = tl (tx_status s)"
  "trace (writeEEPROM_bool a b s) =
     trace s @ BusWrite (addr_bytes a @ [if b then 1 else 0]) (next_status s)
       # (if next_status s = 0 then [Delay 20] else [PrintLn ''I2C write failed!''])"
  by (simp_all add: writeEEPROM_bool_eq)

lemma writeEEPROM_same [simp]:
  "relayStates (writeEEPROM a v s) = relayStates s"
  "buttonCodes (writeEEPROM a v s) = buttonCodes s"
  "learningMode (writeEEPROM a v s) = learningMode s"
  "learnStep (writeEEPROM a v s) = learnStep s"
  "lastReceivedTime (writeEEPROM a v s) = lastReceivedTime s"
  "lastReceivedCode (writeEEPROM a v s) = lastReceivedCode s"
  "lastDebounceTime (writeEEPROM a v s) = lastDebounceTime s"
  "learningModeStartTime (writeEEPROM a v s) = learningModeStartTime s"
  "rx_available (writeEEPROM a v s) = rx_available s"
  "rx_value (writeEEPROM a v s) = rx_value s"
  "button_low (writeEEPROM a v s) = button_low s"
  "rx_deliver (writeEEPROM a v s) = rx_deliver s"
  by (simp_all add: writeEEPROM_eq)

lemma writeEEPROM_changes:
  "clock (writeEEPROM a v s) = (if next_status s = 0 then clock s + 20 else clock s)"
  "mem (writeEEPROM a v s) =
     (if next_status s = 0 then store_bytes (unat a) (word_bytes v) (mem s) else mem s)"
  "tx_status (writeEEPROM a v s) = tl (tx_status s)"
  "trace (writeEEPROM a v s) =
     trace s @ BusWrite (addr_bytes a @ word_bytes v) (next_status s)
       # (if next_status s = 0 then [Delay 20] else [PrintLn ''I2C write failed!''])"
  by (simp_all add: writeEEPROM_eq)

lemma toggle_relay_same [simp]:
  "buttonCodes (toggle_relay i s) = buttonCodes s"
  "learningMode (toggle_relay i s) = learningMode s"
  "learnStep (toggle_relay i s) = learnStep s"
  "lastReceivedTime (toggle_relay i s) = lastReceivedTime s"
  "lastReceivedCode (toggle_relay i s) = lastReceivedCode s"
  "lastDebounceTime (toggle_relay i s) = lastDebounceTime s"
  "learningModeStartTime (toggle_relay i s) = learningModeStartTime s"
  "rx_available (toggle_relay i s) = rx_available s"
  "rx_value (toggle_relay i s) = rx_value s"
  "button_low (toggle_relay i s) = button_low s"
  "rx_deliver (toggle_relay i s) = rx_deliver s"
  by (simp_all add: toggle_relay_def Let_def digitalWrite_def Serial_print_def
      Serial_println_def Serial_print_num_def emit_def)

lemma toggle_relay_relayStates:
  "relayStates (toggle_relay i s) = (relayStates s)[i := \<not> relayStates s ! i]"
  by (simp add: toggle_relay_def Let_def digitalWrite_def Serial_print_def
      Serial_println_def Serial_print_num_def emit_def)

lemma toggle_relay_changes:
  assumes "i < 4" and "length (relayStates s) = 4"
  shows "clock (toggle_relay i s) = (if next_status s = 0 then clock s + 20 else clock s)"
    and "mem (toggle_relay i s) =
      (if next_status s = 0
       then (mem s)(16 + i := if \<not> relayStates s ! i then 1 else 0) else mem s)"
    and "tx_status (toggle_relay i s) = tl (tx_status s)"
    and "trace (toggle_relay i s) = trace s @ toggle_trace i (relayStates s ! i) (next_status s)"
  using assms state_address [OF assms(1)] state_addr_bytes [OF assms(1)]
  by (simp_all add: toggle_relay_def Let_def digitalWrite_def Serial_print_def
      Serial_println_def Serial_print_num_def emit_def writeEEPROM_bool_changes toggle_trace_def)

declare match_loop.simps [simp del]

lemma match_loop_cases:
  obtains (none) "match_loop i v s = s" and "\<forall>j. i \<le> j \<and> j < 4 \<longrightarrow> buttonCodes s ! j \<noteq> v"
  | (hit) j where "i \<le> j" and "j < 4" and "buttonCodes s ! j = v"
      and "\<forall>k. i \<le> k \<and> k < j \<longrightarrow> buttonCodes s ! k \<noteq> v"
      and "match_loop i v s = toggle_relay j s"
proof (induction i v s arbitrary: thesis rule: match_loop.induct)
  case (1 i v s)
  show ?case
  proof (cases "i < 4")
    case False
    show ?thesis
      by (rule "1.prems"(1)) (use False in \<open>auto simp: match_loop.simps [of i]\<close>)
  next
    case True
    show ?thesis
    proof (cases "v = buttonCodes s ! i")
      case True
      show ?thesis
        by (rule "1.prems"(2) [of i])
          (use True \<open>i < 4\<close> in \<open>auto simp: match_loop.simps [of i]\<close>)
    next
      case False
      have step: "match_loop i v s = match_loop (Suc i) v s"
        using False \<open>i < 4\<close> by (simp add: match_loop.simps [of i])
      have below: "Suc i \<le> k" if "i \<le> k" and "buttonCodes s ! k = v" for k
        using that False by (cases "k = i") auto
      show ?thesis
      proof (rule "1.IH" [OF \<open>i < 4\<close> False])
        assume "match_loop (Suc i) v s = s"
          and "\<forall>j. Suc i \<le> j \<and> j < 4 \<longrightarrow> buttonCodes s ! j \<noteq> v"
        then show ?thesis
          using step below by (intro "1.prems"(1)) auto
      next
        fix j
        assume "Suc i \<le> j" and "j < 4" and "buttonCodes s ! j = v"
          and "\<forall>k. Suc i \<le> k \<and> k < j \<longrightarrow> buttonCodes s ! k \<noteq> v"
          and "match_loop (Suc i) v s = toggle_relay j s"
        then show ?thesis
          using step below by (intro "1.prems"(2) [of j]) auto
      qed
    qed
  qed
qed


lemma announced_same [simp]:
  "relayStates (announced s) = relayStates s"
  "buttonCodes (announced s) = buttonCodes s"
  "learningMode (announced s) = learningMode s"
  "learnStep (announced s) = learnStep s"
  "lastReceivedTime (announced s) = lastReceivedTime s"
  "lastReceivedCode (announced s) = lastReceivedCode s"
  "lastDebounceTime (announced s) = lastDebounceTime s"
  "learningModeStartTime (announced s) = learningModeStartTime s"
  "clock (announced s) = clock s"
  "rx_available (announced s) = rx_available s"
  "rx_value (announced s) = rx_value s"
  "button_low (announced s) = button_low s"
  "mem (announced s) = mem s"
  "dev_ptr (announced s) = dev_ptr s"
  "tx_status (announced s) = tx_status s"
  "rx_deliver (announced s) = rx_deliver s"
  "next_status (announced s) = next_status s"
  by (simp_all add: announced_def)

lemma trace_announced:
  "trace (announced s) = trace s @ [Print ''Received: '', PrintNumLn (uint (rx_value s))]"
  by (simp add: announced_def)

lemma handleRFInput_idle: "\<not> rx_available s \<Longrightarrow> handleRFInput s = s"
  by (simp add: handleRFInput_def)

lemma handleRFInput_zero:
  "rx_available s \<Longrightarrow> rx_value s = 0 \<Longrightarrow>
   handleRFInput s = s\<lparr>rx_available := False, trace := trace s @ [PrintLn ''Unknown encoding'']\<rparr>"
  by (simp add: handleRFInput_def resetAvailable_def Serial_println_def emit_def)

lemma handleRFInput_reject:
  "rx_available s \<Longrightarrow> rx_value s \<noteq> 0 \<Longrightarrow> \<not> passes_filter s \<Longrightarrow>
   handleRFInput s = s\<lparr>rx_available := False\<rparr>"
  by (simp add: handleRFInput_def resetAvailable_def passes_filter_def)

lemma handleRFInput_accept:
  assumes "rx_available s" and "rx_value s \<noteq> 0" and "passes_filter s"
  shows "handleRFInput s =
    (match_loop 0 (rx_value s) (announced s))
      \<lparr>lastReceivedTime := clock (match_loop 0 (rx_value s) (announced s)),
       lastReceivedCode := rx_value s, rx_available := False\<rparr>"
  using assms
  by (simp add: handleRFInput_def resetAvailable_def passes_filter_def Let_def millis_def
      Serial_print_def Serial_println_num_def emit_def announced_def)

lemma match_loop_first:
  assumes "i < 4" and "buttonCodes s ! i = v" and "\<forall>j<i. buttonCodes s ! j \<noteq> v"
  shows "match_loop 0 v s = toggle_relay i s"
proof (rule match_loop_cases [of 0 v s])
  assume "\<forall>j. 0 \<le> j \<and> j < 4 \<longrightarrow> buttonCodes s ! j \<noteq> v"
  with assms(1,2) show ?thesis by simp
next
  fix j
  assume j: "j < 4" "buttonCodes s ! j = v" "\<forall>k. 0 \<le> k \<and> k < j \<longrightarrow> buttonCodes s ! k \<noteq> v"
    and m: "match_loop 0 v s = toggle_relay j s"
  have "j = i"
  proof (rule ccontr)
    assume "j \<noteq> i"
    then consider "j < i" | "i < j" by arith
    then show False
      using j assms(2,3) by cases auto
  qed
  with m show ?thesis by simp
qed

lemma match_loop_none:
  assumes "\<forall>j<4. buttonCodes s ! j \<noteq> v"
  shows "match_loop 0 v s = s"
  by (rule match_loop_cases [of 0 v s]) (use assms in auto)

lemma handleRFInput_miss:
  assumes "rx_available s" and "rx_value s \<noteq> 0" and "passes_filter s"
    and "\<forall>j<4. buttonCodes s ! j \<noteq> rx_value s"
  shows "handleRFInput s =
    s\<lparr>lastReceivedTime := clock s, lastReceivedCode := rx_value s, rx_available := False,
      trace := trace s @ [Print ''Received: '', PrintNumLn (uint (rx_value s))]\<rparr>"
proof -
  have "match_loop 0 (rx_value s) (announced s) = announced s"
    by (rule match_loop_none) (use assms(4) in simp)
  then show ?thesis
    by (simp add: handleRFInput_accept [OF assms(1-3)]) (simp add: announced_def)
qed

lemma handleRFInput_hit:
  assumes "rx_available s" and "rx_value s \<noteq> 0" and "passes_filter s"
    and "i < 4" and "buttonCodes s ! i = rx_value s"
    and "\<forall>j<i. buttonCodes s ! j \<noteq> rx_value s"
    and "length (relayStates s) = 4"
  shows "relayStates (handleRFInput s) = (relayStates s)[i := \<not> relayStates s ! i]"
    and "lastReceivedCode (handleRFInput s) = rx_value s"
    and "lastReceivedTime (handleRFInput s) = clock (handleRFInput s)"
    and "clock (handleRFInput s) = (if next_status s = 0 then clock s + 20 else clock s)"
    and "mem (handleRFInput s) =
      (if next_status s = 0
       then (mem s)(16 + i := if \<not> relayStates s ! i then 1 else 0) else mem s)"
    and "tx_status (handleRFInput s) = tl (tx_status s)"
    and "trace (handleRFInput s) =
      trace s @ [Print ''Received: '', PrintNumLn (uint (rx_value s))]
        @ toggle_trace i (relayStates s ! i) (next_status s)"
    and "\<not> rx_available (handleRFInput s)"
proof -
  have m: "match_loop 0 (rx_value s) (announced s) = toggle_relay i (announced s)"
    by (rule match_loop_first [OF assms(4)]) (use assms(5,6) in simp_all)
  have l: "length (relayStates (announced s)) = 4"
    using assms(7) by simp
  note h = handleRFInput_accept [OF assms(1-3), unfolded m]
  show "relayStates (handleRFInput s) = (relayStates s)[i := \<not> relayStates s ! i]"
    by (simp add: h toggle_relay_relayStates)
  show "lastReceivedCode (handleRFInput s) = rx_value s"
    by (simp add: h)
  show "lastReceivedTime (handleRFInput s) = clock (handleRFInput s)"
    by (simp add: h)
  show "clock (handleRFInput s) = (if next_status s = 0 then clock s + 20 else clock s)"
    by (simp add: h toggle_relay_changes(1) [OF assms(4) l])
  show "mem (handleRFInput s) =
      (if next_status s = 0
       then (mem s)(16 + i := if \<not> relayStates s ! i then 1 else 0) else mem s)"
    by (simp add: h toggle_relay_changes(2) [OF assms(4) l])
  show "tx_status (handleRFInput s) = tl (tx_status s)"
    by (simp add: h toggle_relay_changes(3) [OF assms(4) l])
  show "trace (handleRFInput s) =
      trace s @ [Print ''Received: '', PrintNumLn (uint (rx_value s))]
        @ toggle_trace i (relayStates s ! i) (next_status s)"
    by (simp add: h toggle_relay_changes(4) [OF assms(4) l] trace_announced)
  show "\<not> rx_available (handleRFInput s)"
    by (simp add: h)
qed

text \<open>Every call is one of five cases.\<close>

lemma handleRFInput_cases:
  obtains (idle) "\<not> rx_available s" and "handleRFInput s = s"
  | (zero) "rx_available s" and "rx_value s = 0"
      and "handleRFInput s =
        s\<lparr>rx_available := False, trace := trace s @ [PrintLn ''Unknown encoding'']\<rparr>"
  | (reject) "rx_available s" and "rx_value s \<noteq> 0" and "\<not> passes_filter s"
      and "handleRFInput s = s\<lparr>rx_available := False\<rparr>"
  | (miss) "rx_available s" and "rx_value s \<noteq> 0" and "passes_filter s"
      and "\<forall>j<4. buttonCodes s ! j \<noteq> rx_value s"
      and "handleRFInput s =
        s\<lparr>lastReceivedTime := clock s, lastReceivedCode := rx_value s, rx_available := False,
          trace := trace s @ [Print ''Received: '', PrintNumLn (uint (rx_value s))]\<rparr>"
  | (hit) i where "rx_available s" and "rx_value s \<noteq> 0" and "passes_filter s"
      and "i < 4" and "buttonCodes s ! i = rx_value s"
      and "\<forall>j<i. buttonCodes s ! j \<noteq> rx_value s"
      and "handleRFInput s =
        (toggle_relay i (announced s))
          \<lparr>lastReceivedTime := clock (toggle_relay i (announced s)),
           lastReceivedCode := rx_value s, rx_available := False\<rparr>"
proof (cases "rx_available s")
  case False
  then show ?thesis using idle handleRFInput_idle by blast
next
  case av: True
  show ?thesis
  proof (cases "rx_value s = 0")
    case True
    with av show ?thesis using zero handleRFInput_zero by blast
  next
    case nz: False
    show ?thesis
    proof (cases "passes_filter s")
      case False
      with av nz show ?thesis using reject handleRFInput_reject by blast
    next
      case pf: True
      show ?thesis
      proof (rule match_loop_cases [of 0 "rx_value s" "announced s"])
        assume "\<forall>j. 0 \<le> j \<and> j < 4 \<longrightarrow> buttonCodes (announced s) ! j \<noteq> rx_value s"
        then have n: "\<forall>j<4. buttonCodes s ! j \<noteq> rx_value s" by simp
        from miss [OF av nz pf n handleRFInput_miss [OF av nz pf n]] show ?thesis .
      next
        fix j
        assume j: "j < 4" "buttonCodes (announced s) ! j = rx_value s"
          "\<forall>k. 0 \<le> k \<and> k < j \<longrightarrow> buttonCodes (announced s) ! k \<noteq> rx_value s"
          and m: "match_loop 0 (rx_value s) (announced s) = toggle_relay j (announced s)"
        show ?thesis
          by (rule hit [OF av nz pf j(1)])
            (use j handleRFInput_accept [OF av nz pf] m in simp_all)
      qed
    qed
  qed
qed

lemma handleRFInput_same [simp]:
  "buttonCodes (handleRFInput s) = buttonCodes s"
  "learningMode (handleRFInput s) = learningMode s"
  "learnStep (handleRFInput s) = learnStep s"
  "lastDebounceTime (handleRFInput s) = lastDebounceTime s"
  "learningModeStartTime (handleRFInput s) = learningModeStartTime s"
  "rx_value (handleRFInput s) = rx_value s"
  "button_low (handleRFInput s) = button_low s"
  "rx_deliver (handleRFInput s) = rx_deliver s"
  by (rule handleRFInput_cases [of s]; simp)+

lemma length_relayStates_handleRFInput [simp]:
  "length (relayStates (handleRFInput s)) = length (relayStates s)"
  by (rule handleRFInput_cases [of s]; simp add: toggle_relay_relayStates)


section \<open>Learning mode\<close>

lemma env_fields [simp]:
  "relayStates (env ob s) = relayStates s"
  "buttonCodes (env ob s) = buttonCodes s"
  "learningMode (env ob s) = learningMode s"
  "learnStep (env ob s) = learnStep s"
  "lastReceivedTime (env ob s) = lastReceivedTime s"
  "lastReceivedCode (env ob s) = lastReceivedCode s"
  "lastDebounceTime (env ob s) = lastDebounceTime s"
  "learningModeStartTime (env ob s) = learningModeStartTime s"
  "clock (env ob s) = clock s + elapsed ob"
  "rx_available (env ob s) = (signal ob \<noteq> None \<or> rx_available s)"
  "rx_value (env ob s) = (case signal ob of None \<Rightarrow> rx_value s | Some v \<Rightarrow> v)"
  "button_low (env ob s) = button ob"
  "mem (env ob s) = mem s"
  "dev_ptr (env ob s) = dev_ptr s"
  "tx_status (env ob s) = tx_status s"
  "rx_deliver (env ob s) = rx_deliver s"
  "trace (env ob s) = trace s"
  "next_status (env ob s) = next_status s"
  by (simp_all add: env_def next_status_def split: option.splits)

lemmas board_io_defs =
  Serial_print_def Serial_println_def Serial_print_num_def Serial_println_num_def
  digitalWrite_def delay_def emit_def resetAvailable_def millis_def

lemma capture_same [simp]:
  "relayStates (capture v s) = relayStates s"
  "lastReceivedTime (capture v s) = lastReceivedTime s"
  "lastDebounceTime (capture v s) = lastDebounceTime s"
  "learningModeStartTime (capture v s) = learningModeStartTime s"
  "rx_value (capture v s) = rx_value s"
  "button_low (capture v s) = button_low s"
  "rx_deliver (capture v s) = rx_deliver s"
  by (simp_all add: capture_def Let_def board_io_defs)

lemma capture_fields:
  "buttonCodes (capture v s) = (buttonCodes s)[learnStep s := v]"
  "learnStep (capture v s) = Suc (learnStep s)"
  "lastReceivedCode (capture v s) = v"
  "rx_available (capture v s) = False"
  "learningMode (capture v s) = (if 3 \<le> learnStep s then False else learningMode s)"
  "clock (capture v s) =
     clock s + (if next_status s = 0 then 20 else 0) + (if 3 \<le> learnStep s then 0 else 2000)"
  "tx_status (capture v s) = tl (tx_status s)"
  by (simp_all add: capture_def Let_def board_io_defs writeEEPROM_changes)

lemma mem_capture:
  "learnStep s < 4 \<Longrightarrow>
   mem (capture v s) =
     (if next_status s = 0 then store_bytes (learnStep s * 4) (word_bytes v) (mem s) else mem s)"
  using slot_address [of "learnStep s"]
  by (simp add: capture_def Let_def board_io_defs writeEEPROM_changes)

lemma learn_body_eq:
  "learn_body s = check_timeout (if takes s then capture (rx_value s) s else s)"
  by (simp add: learn_body_def check_timeout_def takes_def Let_def board_io_defs)

lemma check_timeout_same [simp]:
  "relayStates (check_timeout s) = relayStates s"
  "buttonCodes (check_timeout s) = buttonCodes s"
  "learnStep (check_timeout s) = learnStep s"
  "lastReceivedTime (check_timeout s) = lastReceivedTime s"
  "lastReceivedCode (check_timeout s) = lastReceivedCode s"
  "lastDebounceTime (check_timeout s) = lastDebounceTime s"
  "learningModeStartTime (check_timeout s) = learningModeStartTime s"
  "clock (check_timeout s) = clock s"
  "rx_available (check_timeout s) = rx_available s"
  "rx_value (check_timeout s) = rx_value s"
  "button_low (check_timeout s) = button_low s"
  "mem (check_timeout s) = mem s"
  "dev_ptr (check_timeout s) = dev_ptr s"
  "tx_status (check_timeout s) = tx_status s"
  "rx_deliver (check_timeout s) = rx_deliver s"
  "next_status (check_timeout s) = next_status s"
  by (simp_all add: check_timeout_def)

lemma learningMode_check_timeout:
  "learningMode (check_timeout s) =
     (learningMode s \<and> \<not> clock s - learningModeStartTime s > learningModeTimeout)"
  by (simp add: check_timeout_def)

lemma learn_body_same [simp]:
  "relayStates (learn_body s) = relayStates s"
  "lastReceivedTime (learn_body s) = lastReceivedTime s"
  "lastDebounceTime (learn_body s) = lastDebounceTime s"
  "learningModeStartTime (learn_body s) = learningModeStartTime s"
  "rx_value (learn_body s) = rx_value s"
  "button_low (learn_body s) = button_low s"
  "rx_deliver (learn_body s) = rx_deliver s"
  by (simp_all add: learn_body_eq)

lemma learn_body_fields:
  "buttonCodes (learn_body s) =
     (if takes s then (buttonCodes s)[learnStep s := rx_value s] else buttonCodes s)"
  "learnStep (learn_body s) = (if takes s then Suc (learnStep s) else learnStep s)"
  "lastReceivedCode (learn_body s) = (if takes s then rx_value s else lastReceivedCode s)"
  "rx_available (learn_body s) = (rx_available s \<and> \<not> takes s)"
  by (simp_all add: learn_body_eq capture_fields)

subsection \<open>Time since the session started\<close>

lemma span_simps [simp]:
  "span [] = 0"
  "span (ob # obs) = unat (elapsed ob) + span obs"
  "span (xs @ ys) = span xs + span ys"
  by (simp_all add: span_def)

lemma unat_add_le: "unat (a + b) \<le> unat a + unat (b :: u32)"
  by (simp add: unat_word_ariths)

lemma since_shift:
  "unat (c + d - st) \<le> unat (c - st) + unat (d :: u32)"
proof -
  have "c + d - st = (c - st) + d" by simp
  then show ?thesis using unat_add_le [of "c - st" d] by (simp only:)
qed

lemma since_env: "since_start (env ob s) \<le> since_start s + unat (elapsed ob)"
  by (simp add: since_start_def since_shift)

lemma timed_out_iff:
  "(clock s - learningModeStartTime s > learningModeTimeout) = (300000 < since_start s)"
  by (simp add: since_start_def learningModeTimeout_def word_less_nat_alt)

lemma since_capture: "since_start (capture v s) \<le> since_start s + 2020"
proof -
  have "since_start (capture v s) \<le>
      since_start s + unat ((if next_status s = 0 then 20 else 0)
        + (if 3 \<le> learnStep s then 0 else 2000) :: u32)"
    using since_shift [of "clock s" _ "learningModeStartTime s"]
    by (simp add: since_start_def capture_fields add.assoc)
  also have "\<dots> \<le> since_start s + 2020"
    by simp
  finally show ?thesis .
qed

lemma since_check_timeout [simp]: "since_start (check_timeout s) = since_start s"
  by (simp add: since_start_def)

lemma since_learn_body:
  "since_start (learn_body s) \<le> since_start s + (if takes s then 2020 else 0)"
  using since_capture [of "rx_value s" s] by (simp add: learn_body_eq)

lemma learningMode_learn_body:
  "learningMode (learn_body s) =
     (learningMode s \<and> \<not> (takes s \<and> 3 \<le> learnStep s) \<and> since_start (learn_body s) \<le> 300000)"
  by (auto simp: learn_body_eq learningMode_check_timeout timed_out_iff capture_fields)

lemma takes_simps [simp]:
  "signal ob = None \<Longrightarrow> takes (env ob s) = takes s"
  "signal ob = Some v \<Longrightarrow> takes (env ob s) = (v \<noteq> 0 \<and> v \<noteq> lastReceivedCode s)"
  by (simp_all add: takes_def)

lemma not_takes_learn_body: "\<not> takes (learn_body s)"
  by (auto simp: takes_def learn_body_fields)

subsection \<open>The capture loop\<close>

lemma learn_loop_inv:
  assumes "P s" and "\<And>t ob. P t \<Longrightarrow> learningMode t \<Longrightarrow> P (learn_body (env ob t))"
  shows "P (fst (learn_loop s obs))"
  using assms(1)
proof (induction obs arbitrary: s)
  case Nil
  then show ?case by simp
next
  case (Cons ob obs)
  then show ?case by (simp add: assms(2))
qed

lemma learn_loop_stopped [simp]: "\<not> learningMode s \<Longrightarrow> learn_loop s obs = (s, obs)"
  by (cases obs) simp_all

lemma learn_loop_captures:
  assumes "learningMode s" and "learnStep s < 4" and "\<not> takes s"
    and "chain_ok (lastReceivedCode s) (signals obs)"
    and "learnStep s + length (signals obs) \<le> 4"
    and "length (buttonCodes s) = 4"
    and "since_start s + span obs + 2020 * length (signals obs) \<le> 300000"
  shows "buttonCodes (fst (learn_loop s obs)) =
      take (learnStep s) (buttonCodes s) @ signals obs
        @ drop (learnStep s + length (signals obs)) (buttonCodes s)
    \<and> learnStep (fst (learn_loop s obs)) = learnStep s + length (signals obs)
    \<and> learningMode (fst (learn_loop s obs)) = (learnStep s + length (signals obs) < 4)"
  using assms
proof (induction obs arbitrary: s)
  case Nil
  then show ?case by simp
next
  case (Cons ob obs)
  define e where "e = env ob s"
  define s' where "s' = learn_body e"
  have loop: "learn_loop s (ob # obs) = learn_loop s' obs"
    using Cons.prems(1) by (simp add: s'_def e_def)
  have since_e: "since_start e \<le> since_start s + unat (elapsed ob)"
    unfolding e_def by (rule since_env)
  have nt: "\<not> takes s'"
    unfolding s'_def by (rule not_takes_learn_body)
  have len: "length (buttonCodes s') = 4"
    using Cons.prems(6) by (simp add: s'_def e_def learn_body_fields)
  show ?case
  proof (cases "signal ob")
    case None
    then have te: "\<not> takes e"
      using Cons.prems(3) by (simp add: e_def)
    have sig: "signals (ob # obs) = signals obs"
      using None by simp
    have since: "since_start s' \<le> since_start s + unat (elapsed ob)"
      using since_learn_body [of e] te since_e by (simp add: s'_def)
    have keep: "buttonCodes s' = buttonCodes s" "learnStep s' = learnStep s"
      "lastReceivedCode s' = lastReceivedCode s"
      using te by (simp_all add: s'_def learn_body_fields) (simp_all add: e_def)
    have lm: "learningMode s'"
      using Cons.prems(1,7) since te
      by (simp add: s'_def learningMode_learn_body) (simp add: e_def flip: s'_def)
    have budget: "since_start s' + span obs + 2020 * length (signals obs) \<le> 300000"
      using Cons.prems(7) since sig by simp
    from Cons.IH [OF lm _ nt _ _ len budget] Cons.prems(2,4,5) keep sig loop
    show ?thesis by simp
  next
    case (Some v)
    have sig: "signals (ob # obs) = v # signals obs"
      using Some by simp
    have v: "v \<noteq> 0" "v \<noteq> lastReceivedCode s" "chain_ok v (signals obs)"
      using Cons.prems(4) sig by simp_all
    have te: "takes e" and rv: "rx_value e = v"
      using v Some by (simp_all add: e_def)
    have since: "since_start s' \<le> since_start s + unat (elapsed ob) + 2020"
      using since_learn_body [of e] te since_e by (simp add: s'_def)
    have upd: "buttonCodes s' = (buttonCodes s)[learnStep s := v]" "learnStep s' = Suc (learnStep s)"
      "lastReceivedCode s' = v"
      using te rv by (simp_all add: s'_def learn_body_fields) (simp_all add: e_def)
    have bc: "buttonCodes s' = take (learnStep s) (buttonCodes s) @ [v]
        @ drop (Suc (learnStep s)) (buttonCodes s)"
      using Cons.prems(2,6) by (simp add: upd upd_conv_take_nth_drop)
    show ?thesis
    proof (cases "learnStep s = 3")
      case True
      then have none: "signals obs = []"
        using Cons.prems(5) sig by simp
      have nl: "\<not> learningMode s'"
        using True te by (simp add: s'_def learningMode_learn_body) (simp add: e_def)
      have "learn_loop s (ob # obs) = (s', obs)"
        unfolding loop using nl by simp
      then show ?thesis
        using sig none bc upd True nl by simp
    next
      case False
      then have k: "learnStep s < 3"
        using Cons.prems(2) by simp
      have lm: "learningMode s'"
        using Cons.prems(1,7) since te k sig
        by (simp add: s'_def learningMode_learn_body) (simp add: e_def flip: s'_def)
      have budget: "since_start s' + span obs + 2020 * length (signals obs) \<le> 300000"
        using Cons.prems(7) since sig by simp
      have t: "take (learnStep s') (buttonCodes s') = take (learnStep s) (buttonCodes s) @ [v]"
        using Cons.prems(2,6) by (simp add: upd take_Suc_conv_app_nth)
      have d: "drop (learnStep s' + length (signals obs)) (buttonCodes s') =
          drop (learnStep s + length (signals (ob # obs))) (buttonCodes s)"
        by (simp add: upd Some drop_update_cancel)
      from Cons.IH [OF lm _ nt _ _ len budget] k v(3) Cons.prems(5) upd sig
      have "buttonCodes (fst (learn_loop s' obs)) =
          take (learnStep s') (buttonCodes s') @ signals obs
            @ drop (learnStep s' + length (signals obs)) (buttonCodes s')
        \<and> learnStep (fst (learn_loop s' obs)) = learnStep s' + length (signals obs)
        \<and> learningMode (fst (learn_loop s' obs)) = (learnStep s' + length (signals obs) < 4)"
        by simp
      then show ?thesis
        unfolding loop t d using sig upd(2) by simp
    qed
  qed
qed

subsection \<open>What holds during every session\<close>

lemma step_bound:
  assumes "learnStep t < 4"
  shows "learnStep (learn_body (env ob t)) \<le> 4"
    and "learningMode (learn_body (env ob t)) \<Longrightarrow> learnStep (learn_body (env ob t)) < 4"
  using assms by (auto simp: learn_body_fields learningMode_learn_body)

lemma session_bound:
  assumes "learnStep s \<le> 4" and "learningMode s \<longrightarrow> learnStep s < 4"
  shows "learnStep (fst (learn_loop s obs)) \<le> 4
    \<and> (learningMode (fst (learn_loop s obs)) \<longrightarrow> learnStep (fst (learn_loop s obs)) < 4)"
  by (rule learn_loop_inv [where P = "\<lambda>t. learnStep t \<le> 4 \<and> (learningMode t \<longrightarrow> learnStep t < 4)"])
    (use assms step_bound in auto)

lemma session_length [simp]:
  "length (buttonCodes (fst (learn_loop s obs))) = length (buttonCodes s)"
  by (rule learn_loop_inv) (simp_all add: learn_body_fields)

lemma session_relays [simp]:
  "relayStates (fst (learn_loop s obs)) = relayStates s"
  "lastReceivedTime (fst (learn_loop s obs)) = lastReceivedTime s"
  "learningModeStartTime (fst (learn_loop s obs)) = learningModeStartTime s"
  "lastDebounceTime (fst (learn_loop s obs)) = lastDebounceTime s"
  by (rule learn_loop_inv; simp)+

lemma session_monotone: "learnStep s \<le> learnStep (fst (learn_loop s obs))"
  by (rule learn_loop_inv [where P = "\<lambda>t. learnStep s \<le> learnStep t"])
    (auto simp: learn_body_fields)

lemma session_rest:
  assumes "learnStep s \<le> 4" and "learningMode s \<longrightarrow> learnStep s < 4"
  shows "drop (learnStep (fst (learn_loop s obs))) (buttonCodes (fst (learn_loop s obs))) =
    drop (learnStep (fst (learn_loop s obs))) (buttonCodes s)"
proof -
  let ?P = "\<lambda>t. (learningMode t \<longrightarrow> learnStep t < 4)
    \<and> drop (learnStep t) (buttonCodes t) = drop (learnStep t) (buttonCodes s)"
  have "?P (fst (learn_loop s obs))"
  proof (rule learn_loop_inv [where P = ?P])
    show "?P s" using assms by simp
  next
    fix t :: sys and ob
    assume P: "?P t" and lm: "learningMode t"
    then have k: "learnStep t < 4" by simp
    define e where "e = env ob t"
    have e: "buttonCodes e = buttonCodes t" "learnStep e = learnStep t"
      by (simp_all add: e_def)
    have "drop (learnStep (learn_body e)) (buttonCodes (learn_body e)) =
        drop (learnStep (learn_body e)) (buttonCodes s)"
    proof (cases "takes e")
      case True
      have "drop (Suc (learnStep t)) (buttonCodes t) = drop 1 (drop (learnStep t) (buttonCodes t))"
        by simp
      also have "\<dots> = drop (Suc (learnStep t)) (buttonCodes s)"
        using P by simp
      finally show ?thesis
        using True by (simp add: learn_body_fields e drop_update_cancel)
    next
      case False
      then show ?thesis using P by (simp add: learn_body_fields e)
    qed
    then show "?P (learn_body (env ob t))"
      using step_bound(2) [OF k, of ob] by (simp add: e_def)
  qed
  then show ?thesis by simp
qed


lemma session_exit:
  assumes "learningMode s" and "learnStep s < 4"
  shows "\<not> learningMode (fst (learn_loop s obs)) \<longrightarrow>
    learnStep (fst (learn_loop s obs)) = 4 \<or> 300000 < since_start (fst (learn_loop s obs))"
proof -
  let ?P = "\<lambda>t. (learningMode t \<longrightarrow> learnStep t < 4)
    \<and> (\<not> learningMode t \<longrightarrow> learnStep t = 4 \<or> 300000 < since_start t)"
  have "?P (fst (learn_loop s obs))"
  proof (rule learn_loop_inv [where P = ?P])
    show "?P s" using assms by simp
  next
    fix t :: sys and ob
    assume P: "?P t" and lm: "learningMode t"
    then have k: "learnStep t < 4" by simp
    show "?P (learn_body (env ob t))"
      using step_bound(2) [OF k, of ob] lm k
      by (auto simp: learningMode_learn_body learn_body_fields)
  qed
  then show ?thesis by simp
qed

lemma nth_update_nonzero:
  assumes "v \<noteq> 0" and "xs[k := v] ! i = (0::u32)"
  shows "xs ! i = 0"
proof (cases "k < length xs")
  case True
  with assms show ?thesis by (cases "i = k") simp_all
next
  case False
  then have "xs[k := v] = xs" by (intro list_update_beyond) simp
  with assms(2) show ?thesis by simp
qed

lemma session_zero:
  "buttonCodes (fst (learn_loop s obs)) ! i = 0 \<longrightarrow> buttonCodes s ! i = 0"
proof (rule learn_loop_inv [where P = "\<lambda>t. buttonCodes t ! i = 0 \<longrightarrow> buttonCodes s ! i = 0"])
  fix t :: sys and ob
  assume P: "buttonCodes t ! i = 0 \<longrightarrow> buttonCodes s ! i = 0"
  show "buttonCodes (learn_body (env ob t)) ! i = 0 \<longrightarrow> buttonCodes s ! i = 0"
  proof (cases "takes (env ob t)")
    case True
    then have "rx_value (env ob t) \<noteq> 0" by (simp add: takes_def)
    from nth_update_nonzero [OF this] P True show ?thesis
      by (auto simp: learn_body_fields)
  next
    case False
    with P show ?thesis by (simp add: learn_body_fields)
  qed
qed simp

lemma mem_learn_body_outside:
  assumes "learnStep t < 4" and "16 \<le> a"
  shows "mem (learn_body t) a = mem t a"
  using assms by (simp add: learn_body_eq mem_capture store_bytes_outside)

lemma session_mem_outside:
  assumes "learnStep s \<le> 4" and "learningMode s \<longrightarrow> learnStep s < 4" and "16 \<le> a"
  shows "mem (fst (learn_loop s obs)) a = mem s a"
proof -
  let ?P = "\<lambda>t. (learningMode t \<longrightarrow> learnStep t < 4) \<and> mem t a = mem s a"
  have "?P (fst (learn_loop s obs))"
  proof (rule learn_loop_inv [where P = ?P])
    show "?P s" using assms by simp
  next
    fix t :: sys and ob
    assume P: "?P t" and lm: "learningMode t"
    then have k: "learnStep t < 4" by simp
    then have "learnStep (env ob t) < 4" by simp
    from mem_learn_body_outside [OF this assms(3)] P step_bound(2) [OF k, of ob]
    show "?P (learn_body (env ob t))" by simp
  qed
  then show ?thesis by simp
qed

section \<open>Sessions and the main loop\<close>

lemma enterLearningMode_eq: "enterLearningMode s obs = learn_loop (session_start s) obs"
  by (simp add: enterLearningMode_def session_start_def Let_def board_io_defs)

lemma session_start_fields [simp]:
  "relayStates (session_start s) = relayStates s"
  "buttonCodes (session_start s) = buttonCodes s"
  "learningMode (session_start s)"
  "learnStep (session_start s) = 0"
  "lastReceivedTime (session_start s) = lastReceivedTime s"
  "lastReceivedCode (session_start s) = lastReceivedCode s"
  "lastDebounceTime (session_start s) = lastDebounceTime s"
  "learningModeStartTime (session_start s) = clock s"
  "clock (session_start s) = clock s"
  "rx_available (session_start s) = rx_available s"
  "rx_value (session_start s) = rx_value s"
  "mem (session_start s) = mem s"
  "since_start (session_start s) = 0"
  "takes (session_start s) = takes s"
  by (simp_all add: session_start_def since_start_def takes_def)


lemma loop_zero:
  "buttonCodes (fst (loop s obs)) ! i = 0 \<longrightarrow> buttonCodes s ! i = 0"
proof -
  have "buttonCodes (fst (enterLearningMode s obs)) ! i = 0 \<longrightarrow> buttonCodes s ! i = 0"
    using session_zero [of "session_start s" obs i] by (simp add: enterLearningMode_eq)
  then show ?thesis
    by (auto simp: loop_def Let_def split: prod.splits)
qed

lemma run_zero:
  "buttonCodes (run s obs) ! i = 0 \<longrightarrow> buttonCodes s ! i = 0"
proof (induction s obs rule: run.induct)
  case (1 s)
  then show ?case by simp
next
  case (2 s ob obs)
  obtain s1 obs1 where l: "loop (env ob s) obs = (s1, obs1)"
    by (cases "loop (env ob s) obs")
  have z: "buttonCodes s1 ! i = 0 \<longrightarrow> buttonCodes s ! i = 0"
    using loop_zero [of "env ob s" obs i] l by simp
  show ?case
  proof (cases "learningMode s1")
    case True
    then show ?thesis using l z by simp
  next
    case False
    from "2.IH" [OF l [symmetric] False] z l False show ?thesis by simp
  qed
qed


lemma paired_fields [simp]:
  "relayStates paired = [False, True, False, False]"
  "buttonCodes paired = [5, 6, 7, 6]"
  "\<not> learningMode paired"
  "learnStep paired = 0"
  "lastReceivedTime paired = 0"
  "lastReceivedCode paired = 0"
  "lastDebounceTime paired = 0"
  "clock paired = 0"
  "\<not> rx_available paired"
  "tx_status paired = []"
  "rx_deliver paired = []"
  "trace paired = []"
  "mem paired = erased"
  "next_status paired = 0"
  by (simp_all add: paired_def board_def power_on_def next_status_def)

lemma pin_writes_append [simp]: "pin_writes (xs @ ys) = pin_writes xs @ pin_writes ys"
  by (induction xs rule: pin_writes.induct) simp_all

lemma bus_writes_append [simp]: "bus_writes (xs @ ys) = bus_writes xs @ bus_writes ys"
  by (induction xs rule: bus_writes.induct) simp_all

lemma pin_writes_toggle_trace [simp]:
  "pin_writes (toggle_trace i old st) = [(relayPins ! i, \<not> old)]"
  by (simp add: toggle_trace_def)

lemma bus_writes_toggle_trace [simp]:
  "bus_writes (toggle_trace i old st) = [([0, of_nat (16 + i), if \<not> old then 1 else 0], st)]"
  by (simp add: toggle_trace_def)

lemma new_trace_append [simp]: "trace s' = trace s @ es \<Longrightarrow> new_trace s s' = es"
  by (simp add: new_trace_def)

lemma new_trace_same [simp]: "trace s' = trace s \<Longrightarrow> new_trace s s' = []"
  by (simp add: new_trace_def)

lemma passes_filterI:
  "rx_value s \<noteq> lastReceivedCode s \<or> millis s - lastReceivedTime s > debounceTime \<Longrightarrow>
   passes_filter s"
  by (simp add: passes_filter_def)

text \<open>
  C5. Registry lookup is a scan in slot order and the first match wins: when an accepted
  code equals the stored code of slot \<open>i\<close> and of no lower slot, exactly relay \<open>i\<close> is
  flipped and exactly its pin is driven, whatever the later slots hold; when no slot
  holds the code, no relay changes and no pin is driven.
\<close>

theorem lookup_first_match_wins:
  assumes "rx_available s" and "rx_value s \<noteq> 0"
    and "rx_value s \<noteq> lastReceivedCode s \<or> millis s - lastReceivedTime s > debounceTime"
    and "length (relayStates s) = 4"
  shows "(i < 4 \<and> buttonCodes s ! i = rx_value s \<and> (\<forall>j<i. buttonCodes s ! j \<noteq> rx_value s) \<longrightarrow>
        relayStates (handleRFInput s) = (relayStates s)[i := \<not> relayStates s ! i]
      \<and> pin_writes (new_trace s (handleRFInput s)) = [(relayPins ! i, \<not> relayStates s ! i)])
    \<and> ((\<forall>j<4. buttonCodes s ! j \<noteq> rx_value s) \<longrightarrow>
        relayStates (handleRFInput s) = relayStates s
      \<and> pin_writes (new_trace s (handleRFInput s)) = [])"
proof (intro conjI impI)
  note pf = passes_filterI [OF assms(3)]
  {
    assume h: "i < 4 \<and> buttonCodes s ! i = rx_value s \<and> (\<forall>j<i. buttonCodes s ! j \<noteq> rx_value s)"
    then have i: "i < 4" and c: "buttonCodes s ! i = rx_value s"
      and f: "\<forall>j<i. buttonCodes s ! j \<noteq> rx_value s"
      by simp_all
    note hit = handleRFInput_hit [OF assms(1,2) pf i c f assms(4)]
    show "relayStates (handleRFInput s) = (relayStates s)[i := \<not> relayStates s ! i]"
      by (rule hit(1))
    show "pin_writes (new_trace s (handleRFInput s)) = [(relayPins ! i, \<not> relayStates s ! i)]"
      using hit(7) by simp
  }
  {
    assume n: "\<forall>j<4. buttonCodes s ! j \<noteq> rx_value s"
    note miss = handleRFInput_miss [OF assms(1,2) pf n]
    show "relayStates (handleRFInput s) = relayStates s"
      by (simp add: miss)
    show "pin_writes (new_trace s (handleRFInput s)) = []"
      by (simp add: miss)
  }
qed

theorem lookup_first_match_wins_witness:
  "rx_available (env (Obs 0 (Some 6) False) paired)
   \<and> rx_value (env (Obs 0 (Some 6) False) paired) = 6
   \<and> buttonCodes (env (Obs 0 (Some 6) False) paired) = [5, 6, 7, 6]
   \<and> relayStates (env (Obs 0 (Some 6) False) paired) = [False, True, False, False]
   \<and> relayStates (handleRFInput (env (Obs 0 (Some 6) False) paired)) = [False, False, False, False]
   \<and> pin_writes (new_trace (env (Obs 0 (Some 6) False) paired)
        (handleRFInput (env (Obs 0 (Some 6) False) paired))) = [(4, False)]"
proof -
  let ?w = "env (Obs 0 (Some 6) False) paired"
  have a: "rx_available ?w" and b: "rx_value ?w \<noteq> 0"
    and c: "rx_value ?w \<noteq> lastReceivedCode ?w \<or> millis ?w - lastReceivedTime ?w > debounceTime"
    and d: "length (relayStates ?w) = 4"
    by simp_all
  have e: "(1::nat) < 4 \<and> buttonCodes ?w ! 1 = rx_value ?w
      \<and> (\<forall>j<1. buttonCodes ?w ! j \<noteq> rx_value ?w)"
    by simp
  from lookup_first_match_wins [OF a b c d, of 1] e
  have "relayStates (handleRFInput ?w) = (relayStates ?w)[1 := \<not> relayStates ?w ! 1]
      \<and> pin_writes (new_trace ?w (handleRFInput ?w)) = [(relayPins ! 1, \<not> relayStates ?w ! 1)]"
    by blast
  then show ?thesis
    by (simp add: relayPins_def)
qed

text \<open>
  C9. A run-time toggle takes effect in this order: the state is flipped in memory and
  driven on the relay's pin first, and only after that is the new state sent to the store
  at address \<open>16 + i\<close>. The trace of an accepted, matching code is exactly: the two
  report lines, the pin write, the relay report, the bus write, and the settle delay or
  the failure report.
\<close>

theorem toggle_drives_then_persists:
  assumes "rx_available s" and "rx_value s \<noteq> 0"
    and "rx_value s \<noteq> lastReceivedCode s \<or> millis s - lastReceivedTime s > debounceTime"
    and "length (relayStates s) = 4"
    and "i < 4" and "buttonCodes s ! i = rx_value s"
    and "\<forall>j<i. buttonCodes s ! j \<noteq> rx_value s"
  shows "new_trace s (handleRFInput s) =
      [Print ''Received: '', PrintNumLn (uint (rx_value s)),
       PinWrite (relayPins ! i) (\<not> relayStates s ! i),
       Print ''Relay '', PrintNum (int i + 1),
       PrintLn (if \<not> relayStates s ! i then '' ON'' else '' OFF''),
       BusWrite [0, of_nat (16 + i), if \<not> relayStates s ! i then 1 else 0] (next_status s)]
      @ (if next_status s = 0 then [Delay 20] else [PrintLn ''I2C write failed!''])
    \<and> relayStates (handleRFInput s) ! i = (\<not> relayStates s ! i)
    \<and> mem (handleRFInput s) (16 + i) =
        (if next_status s = 0 then (if \<not> relayStates s ! i then 1 else 0) else mem s (16 + i))"
proof -
  note hit = handleRFInput_hit [OF assms(1,2) passes_filterI [OF assms(3)] assms(5,6,7,4)]
  have "new_trace s (handleRFInput s) =
      [Print ''Received: '', PrintNumLn (uint (rx_value s))]
        @ toggle_trace i (relayStates s ! i) (next_status s)"
    using hit(7) by simp
  moreover have "relayStates (handleRFInput s) ! i = (\<not> relayStates s ! i)"
    using assms(4,5) by (simp add: hit(1))
  moreover have "mem (handleRFInput s) (16 + i) =
      (if next_status s = 0 then (if \<not> relayStates s ! i then 1 else 0) else mem s (16 + i))"
    by (simp add: hit(5))
  ultimately show ?thesis
    by (simp add: toggle_trace_def)
qed

theorem toggle_drives_then_persists_witness:
  "rx_available (env (Obs 0 (Some 6) False) paired)
   \<and> rx_value (env (Obs 0 (Some 6) False) paired) = 6
   \<and> buttonCodes (env (Obs 0 (Some 6) False) paired) ! 0 = 5
   \<and> buttonCodes (env (Obs 0 (Some 6) False) paired) ! 1 = 6
   \<and> relayStates (env (Obs 0 (Some 6) False) paired) = [False, True, False, False]
   \<and> new_trace (env (Obs 0 (Some 6) False) paired)
        (handleRFInput (env (Obs 0 (Some 6) False) paired)) =
      [Print ''Received: '', PrintNumLn 6, PinWrite 4 False,
       Print ''Relay '', PrintNum 2, PrintLn '' OFF'', BusWrite [0, 17, 0] 0, Delay 20]
   \<and> mem (handleRFInput (env (Obs 0 (Some 6) False) paired)) 17 = 0"
proof -
  let ?w = "env (Obs 0 (Some 6) False) paired"
  have a: "rx_available ?w" and b: "rx_value ?w \<noteq> 0"
    and c: "rx_value ?w \<noteq> lastReceivedCode ?w \<or> millis ?w - lastReceivedTime ?w > debounceTime"
    and d: "length (relayStates ?w) = 4"
    and e: "(1::nat) < 4" and f: "buttonCodes ?w ! 1 = rx_value ?w"
    and g: "\<forall>j<1. buttonCodes ?w ! j \<noteq> rx_value ?w"
    by simp_all
  from toggle_drives_then_persists [OF a b c d e f g] show ?thesis
    by (simp add: relayPins_def)
qed



lemma trace_toggle_relay_grows: "length (trace s) < length (trace (toggle_relay i s))"
  by (simp add: toggle_relay_def Let_def board_io_defs writeEEPROM_bool_changes)

lemma accepted_changes_trace:
  assumes "rx_available s" and "rx_value s \<noteq> 0" and "passes_filter s"
  shows "length (trace s) < length (trace (handleRFInput s))"
proof (cases rule: handleRFInput_cases [of s])
  case (hit i)
  have "length (trace s) < length (trace (announced s))"
    by (simp add: trace_announced)
  also have "\<dots> < length (trace (toggle_relay i (announced s)))"
    by (rule trace_toggle_relay_grows)
  finally show ?thesis
    by (simp add: hit(7))
qed (use assms in simp_all)

lemma accepted_stamps:
  assumes "rx_available s" and "rx_value s \<noteq> 0" and "passes_filter s"
  shows "lastReceivedCode (handleRFInput s) = rx_value s"
    and "lastReceivedTime (handleRFInput s) = clock (handleRFInput s)"
  by (simp_all add: handleRFInput_accept [OF assms])

lemma dedup_scenario:
  fixes s s1 s2 s3 :: sys and v d1 d2 d3 :: u32 and b1 b2 b3 :: bool and i :: nat
  assumes len: "length (relayStates s) = 4" and v: "v \<noteq> 0"
    and i: "i < 4" "buttonCodes s ! i = v" "\<forall>j<i. buttonCodes s ! j \<noteq> v"
    and first: "v \<noteq> lastReceivedCode s \<or> clock s + d1 - lastReceivedTime s > debounceTime"
    and second: "d2 \<le> debounceTime" and third: "d2 + d3 > debounceTime"
  defines "s1 \<equiv> handleRFInput (env (Obs d1 (Some v) b1) s)"
    and "s2 \<equiv> handleRFInput (env (Obs d2 (Some v) b2) s1)"
    and "s3 \<equiv> handleRFInput (env (Obs d3 (Some v) b3) s2)"
  shows "relayStates s1 = (relayStates s)[i := \<not> relayStates s ! i]"
    and "relayStates s2 = relayStates s1"
    and "relayStates s3 = relayStates s"
    and "pin_writes (new_trace s s2) = [(relayPins ! i, \<not> relayStates s ! i)]"
    and "pin_writes (new_trace s s3) =
      [(relayPins ! i, \<not> relayStates s ! i), (relayPins ! i, relayStates s ! i)]"
proof -
  define e1 where "e1 = env (Obs d1 (Some v) b1) s"
  define e2 where "e2 = env (Obs d2 (Some v) b2) s1"
  define e3 where "e3 = env (Obs d3 (Some v) b3) s2"
  have p1: "passes_filter e1"
    using first by (simp add: passes_filter_def e1_def millis_def)
  have h1: "rx_available e1" "rx_value e1 \<noteq> 0" "buttonCodes e1 ! i = rx_value e1"
    "\<forall>j<i. buttonCodes e1 ! j \<noteq> rx_value e1" "length (relayStates e1) = 4"
    using v i len by (simp_all add: e1_def)
  note hit1 = handleRFInput_hit [OF h1(1,2) p1 i(1) h1(3,4,5), folded e1_def s1_def]
  have s1_def': "s1 = handleRFInput e1"
    by (simp add: s1_def e1_def)
  have r1: "relayStates s1 = (relayStates s)[i := \<not> relayStates s ! i]"
    using hit1(1) by (simp add: s1_def' ) (simp add: e1_def)
  have t1: "trace s1 = trace s @ [Print ''Received: '', PrintNumLn (uint v)]
      @ toggle_trace i (relayStates s ! i) (next_status s)"
    using hit1(7) by (simp add: s1_def') (simp add: e1_def)
  have c1: "lastReceivedCode s1 = v" "lastReceivedTime s1 = clock s1" "buttonCodes s1 = buttonCodes s"
    using hit1(2,3) by (simp_all add: s1_def') (simp_all add: e1_def)
  have p2: "\<not> passes_filter e2"
    using second c1 by (simp add: passes_filter_def e2_def millis_def not_less)
  have h2: "rx_available e2" "rx_value e2 \<noteq> 0"
    using v by (simp_all add: e2_def)
  have s2: "s2 = e2\<lparr>rx_available := False\<rparr>"
    using handleRFInput_reject [OF h2 p2] by (simp add: s2_def e2_def)
  have r2: "relayStates s2 = relayStates s1" and t2: "trace s2 = trace s1"
    and c2: "lastReceivedCode s2 = v" "lastReceivedTime s2 = clock s1" "buttonCodes s2 = buttonCodes s"
      "clock s2 = clock s1 + d2"
    using c1 by (simp_all add: s2 e2_def)
  have p3: "passes_filter e3"
    using third c2 by (simp add: passes_filter_def e3_def millis_def add.assoc)
  have h3: "rx_available e3" "rx_value e3 \<noteq> 0" "buttonCodes e3 ! i = rx_value e3"
    "\<forall>j<i. buttonCodes e3 ! j \<noteq> rx_value e3" "length (relayStates e3) = 4"
    using v i len c2 r1 r2 by (simp_all add: e3_def)
  note hit3 = handleRFInput_hit [OF h3(1,2) p3 i(1) h3(3,4,5)]
  have s3_def': "s3 = handleRFInput e3"
    by (simp add: s3_def e3_def)
  have r3: "relayStates s3 = (relayStates s1)[i := \<not> relayStates s1 ! i]"
    using hit3(1) r2 by (simp add: s3_def') (simp add: e3_def)
  have t3: "trace s3 = trace s1 @ [Print ''Received: '', PrintNumLn (uint v)]
      @ toggle_trace i (relayStates s1 ! i) (next_status e3)"
    using hit3(7) t2 r2 by (simp add: s3_def') (simp add: e3_def)
  show "relayStates s1 = (relayStates s)[i := \<not> relayStates s ! i]"
    by (rule r1)
  show "relayStates s2 = relayStates s1"
    by (rule r2)
  show "relayStates s3 = relayStates s"
    using i(1) len by (simp add: r3 r1 list_update_same_conv)
  show "pin_writes (new_trace s s2) = [(relayPins ! i, \<not> relayStates s ! i)]"
    using t1 t2 by simp
  show "pin_writes (new_trace s s3) =
      [(relayPins ! i, \<not> relayStates s ! i), (relayPins ! i, relayStates s ! i)]"
    using t1 t3 i(1) len by (simp add: r1)
qed

text \<open>
  C3. Run-time filter. A non-zero received code is dropped (nothing but the receiver's
  flag changes) exactly when it equals the last accepted code and no more than
  \<open>debounceTime\<close> (1000 ms on the \<open>millis()\<close> counter) has gone by since that
  acceptance; otherwise it is accepted, and the last accepted code and its time stamp
  are updated whether or not a slot matches. Hence a code of slot \<open>i\<close> received a second
  time within the interval toggles the relay once, and received again after the interval
  it toggles the relay a second time.
\<close>

theorem runtime_dedup:
  "(rx_available s \<and> rx_value s \<noteq> 0 \<longrightarrow>
      ((handleRFInput s = s\<lparr>rx_available := False\<rparr>) =
         (\<not> (rx_value s \<noteq> lastReceivedCode s \<or> millis s - lastReceivedTime s > debounceTime)))
    \<and> (rx_value s \<noteq> lastReceivedCode s \<or> millis s - lastReceivedTime s > debounceTime \<longrightarrow>
         lastReceivedCode (handleRFInput s) = rx_value s
       \<and> lastReceivedTime (handleRFInput s) = millis (handleRFInput s)))
   \<and> (length (relayStates s) = 4 \<and> v \<noteq> 0
      \<and> i < 4 \<and> buttonCodes s ! i = v \<and> (\<forall>j<i. buttonCodes s ! j \<noteq> v)
      \<and> (v \<noteq> lastReceivedCode s \<or> clock s + d1 - lastReceivedTime s > debounceTime)
      \<and> d2 \<le> debounceTime \<and> d2 + d3 > debounceTime \<longrightarrow>
      (let s1 = handleRFInput (env (Obs d1 (Some v) b1) s);
           s2 = handleRFInput (env (Obs d2 (Some v) b2) s1);
           s3 = handleRFInput (env (Obs d3 (Some v) b3) s2)
       in relayStates s1 = (relayStates s)[i := \<not> relayStates s ! i]
        \<and> relayStates s2 = relayStates s1
        \<and> relayStates s3 = relayStates s
        \<and> pin_writes (new_trace s s2) = [(relayPins ! i, \<not> relayStates s ! i)]
        \<and> pin_writes (new_trace s s3) =
            [(relayPins ! i, \<not> relayStates s ! i), (relayPins ! i, relayStates s ! i)]))"
proof (intro conjI impI)
  {
    assume a: "rx_available s \<and> rx_value s \<noteq> 0"
    show "(handleRFInput s = s\<lparr>rx_available := False\<rparr>) =
         (\<not> (rx_value s \<noteq> lastReceivedCode s \<or> millis s - lastReceivedTime s > debounceTime))"
    proof (cases "passes_filter s")
      case True
      from accepted_changes_trace [OF _ _ this] a
      have "trace (handleRFInput s) \<noteq> trace (s\<lparr>rx_available := False\<rparr>)"
        by auto
      then have "handleRFInput s \<noteq> s\<lparr>rx_available := False\<rparr>"
        by metis
      then show ?thesis
        using True by (simp add: passes_filter_def)
    next
      case False
      from handleRFInput_reject [OF _ _ this] a show ?thesis
        using False by (simp add: passes_filter_def)
    qed
    assume "rx_value s \<noteq> lastReceivedCode s \<or> millis s - lastReceivedTime s > debounceTime"
    then have p: "passes_filter s"
      by (rule passes_filterI)
    from a have av: "rx_available s" and nz: "rx_value s \<noteq> 0"
      by simp_all
    show "lastReceivedCode (handleRFInput s) = rx_value s"
      by (rule accepted_stamps(1) [OF av nz p])
    show "lastReceivedTime (handleRFInput s) = millis (handleRFInput s)"
      using accepted_stamps(2) [OF av nz p] by (simp add: millis_def)
  }
  {
    assume h: "length (relayStates s) = 4 \<and> v \<noteq> 0
      \<and> i < 4 \<and> buttonCodes s ! i = v \<and> (\<forall>j<i. buttonCodes s ! j \<noteq> v)
      \<and> (v \<noteq> lastReceivedCode s \<or> clock s + d1 - lastReceivedTime s > debounceTime)
      \<and> d2 \<le> debounceTime \<and> d2 + d3 > debounceTime"
    then have h': "length (relayStates s) = 4" "v \<noteq> 0" "i < 4" "buttonCodes s ! i = v"
      "\<forall>j<i. buttonCodes s ! j \<noteq> v"
      "v \<noteq> lastReceivedCode s \<or> clock s + d1 - lastReceivedTime s > debounceTime"
      "d2 \<le> debounceTime" "d2 + d3 > debounceTime"
      by simp_all
    note sc = dedup_scenario [OF h']
    show "let s1 = handleRFInput (env (Obs d1 (Some v) b1) s);
           s2 = handleRFInput (env (Obs d2 (Some v) b2) s1);
           s3 = handleRFInput (env (Obs d3 (Some v) b3) s2)
       in relayStates s1 = (relayStates s)[i := \<not> relayStates s ! i]
        \<and> relayStates s2 = relayStates s1
        \<and> relayStates s3 = relayStates s
        \<and> pin_writes (new_trace s s2) = [(relayPins ! i, \<not> relayStates s ! i)]
        \<and> pin_writes (new_trace s s3) =
            [(relayPins ! i, \<not> relayStates s ! i), (relayPins ! i, relayStates s ! i)]"
      unfolding Let_def by (intro conjI) (rule sc)+
  }
qed

theorem runtime_dedup_witness:
  "rx_available (env (Obs 10 (Some 6) False) paired)
   \<and> rx_value (env (Obs 10 (Some 6) False) paired) = 6
   \<and> heard_once \<noteq> (env (Obs 10 (Some 6) False) paired)\<lparr>rx_available := False\<rparr>
   \<and> lastReceivedCode heard_once = 6
   \<and> lastReceivedTime heard_once = millis heard_once
   \<and> buttonCodes paired ! 0 = 5 \<and> buttonCodes paired ! 1 = 6
   \<and> (400::u32) \<le> debounceTime \<and> (400::u32) + 700 > debounceTime
   \<and> relayStates paired = [False, True, False, False]
   \<and> relayStates heard_once = [False, False, False, False]
   \<and> relayStates heard_twice = [False, False, False, False]
   \<and> relayStates heard_thrice = [False, True, False, False]
   \<and> pin_writes (new_trace paired heard_twice) = [(4, False)]
   \<and> pin_writes (new_trace paired heard_thrice) = [(4, False), (4, True)]"
proof -
  let ?w = "env (Obs 10 (Some 6) False) paired"
  have a: "rx_available ?w \<and> rx_value ?w \<noteq> 0"
    and b: "rx_value ?w \<noteq> lastReceivedCode ?w \<or> millis ?w - lastReceivedTime ?w > debounceTime"
    by simp_all
  have h: "length (relayStates paired) = 4 \<and> (6::u32) \<noteq> 0
      \<and> (1::nat) < 4 \<and> buttonCodes paired ! 1 = 6 \<and> (\<forall>j<1. buttonCodes paired ! j \<noteq> 6)
      \<and> (6 \<noteq> lastReceivedCode paired \<or> clock paired + 10 - lastReceivedTime paired > debounceTime)
      \<and> (400::u32) \<le> debounceTime \<and> (400::u32) + 700 > debounceTime"
    by (simp add: debounceTime_def)
  note t = runtime_dedup [where s = ?w and v = 6 and i = 1 and ?d1.0 = 10 and ?d2.0 = 400
      and ?d3.0 = 700 and ?b1.0 = False and ?b2.0 = True and ?b3.0 = False]
  note u = runtime_dedup [where s = paired and v = 6 and i = 1 and ?d1.0 = 10 and ?d2.0 = 400
      and ?d3.0 = 700 and ?b1.0 = False and ?b2.0 = True and ?b3.0 = False]
  from t a b have "handleRFInput ?w \<noteq> ?w\<lparr>rx_available := False\<rparr>
      \<and> lastReceivedCode (handleRFInput ?w) = rx_value ?w
      \<and> lastReceivedTime (handleRFInput ?w) = millis (handleRFInput ?w)"
    by blast
  moreover from u h have "relayStates heard_once = (relayStates paired)[1 := \<not> relayStates paired ! 1]
        \<and> relayStates heard_twice = relayStates heard_once
        \<and> relayStates heard_thrice = relayStates paired
        \<and> pin_writes (new_trace paired heard_twice) = [(relayPins ! 1, \<not> relayStates paired ! 1)]
        \<and> pin_writes (new_trace paired heard_thrice) =
            [(relayPins ! 1, \<not> relayStates paired ! 1), (relayPins ! 1, relayStates paired ! 1)]"
    unfolding Let_def heard_once_def heard_twice_def heard_thrice_def by blast
  ultimately show ?thesis
    using a by (simp add: relayPins_def debounceTime_def heard_once_def)
qed

section \<open>Zero codes and store failures\<close>

text \<open>
  C4. A received code of 0 does nothing, in run-time dispatch and in learning mode: the
  dispatcher only reports it and clears the receiver's flag, with no relay, registry
  slot or store byte changed, whatever the registry holds; a pass of the capture loop
  leaves the whole state as it is, apart from the timeout check that every pass makes.
\<close>

theorem zero_rejected:
  "rx_available s \<and> rx_value s = 0 \<longrightarrow>
     handleRFInput s =
       s\<lparr>rx_available := False, trace := trace s @ [PrintLn ''Unknown encoding'']\<rparr>
   \<and> learn_body s =
       (if millis s - learningModeStartTime s > learningModeTimeout
        then s\<lparr>learningMode := False,
               trace := trace s @ [PrintLn ''Learning mode timeout. Exiting...'']\<rparr>
        else s)"
proof (intro impI conjI)
  assume a: "rx_available s \<and> rx_value s = 0"
  then show "handleRFInput s =
       s\<lparr>rx_available := False, trace := trace s @ [PrintLn ''Unknown encoding'']\<rparr>"
    by (simp add: handleRFInput_zero)
  from a have "\<not> takes s"
    by (simp add: takes_def)
  then show "learn_body s =
       (if millis s - learningModeStartTime s > learningModeTimeout
        then s\<lparr>learningMode := False,
               trace := trace s @ [PrintLn ''Learning mode timeout. Exiting...'']\<rparr>
        else s)"
    by (simp add: learn_body_eq check_timeout_def millis_def)
qed

theorem zero_rejected_witness:
  "rx_available (env (Obs 10 (Some 0) False) paired)
   \<and> rx_value (env (Obs 10 (Some 0) False) paired) = 0
   \<and> relayStates (handleRFInput (env (Obs 10 (Some 0) False) paired)) = [False, True, False, False]
   \<and> buttonCodes (handleRFInput (env (Obs 10 (Some 0) False) paired)) = [5, 6, 7, 6]
   \<and> mem (handleRFInput (env (Obs 10 (Some 0) False) paired)) = erased
   \<and> trace (handleRFInput (env (Obs 10 (Some 0) False) paired)) = [PrintLn ''Unknown encoding'']
   \<and> learn_body (env (Obs 10 (Some 0) False) paired) = env (Obs 10 (Some 0) False) paired"
proof -
  let ?w = "env (Obs 10 (Some 0) False) paired"
  have a: "rx_available ?w \<and> rx_value ?w = 0"
    by simp
  have "\<not> millis ?w - learningModeStartTime ?w > learningModeTimeout"
    by (simp add: millis_def learningModeTimeout_def paired_def board_def power_on_def)
  with zero_rejected [of ?w] a
  have "handleRFInput ?w =
      ?w\<lparr>rx_available := False, trace := trace ?w @ [PrintLn ''Unknown encoding'']\<rparr>
    \<and> learn_body ?w = ?w"
    by simp
  then show ?thesis
    by simp
qed

lemma requestFrom_short_eq:
  assumes "rx_deliver s = k # rest" and "k < n"
  shows "Wire_requestFrom n s =
    (map (\<lambda>j. mem s (dev_ptr s + j)) [0..<k],
     s\<lparr>dev_ptr := dev_ptr s + k, rx_deliver := rest, trace := trace s @ [BusRead n k]\<rparr>)"
  using assms by (simp add: Wire_requestFrom_def Let_def emit_def min_def)

lemma readEEPROM_short_eq:
  assumes "bus_acks 1 s" and "rx_deliver s = k # rest" and "k < 4"
  shows "readEEPROM a s =
    (0, s\<lparr>dev_ptr := unat a + k, tx_status := tl (tx_status s), rx_deliver := rest,
          trace := trace s @ [BusWrite (addr_bytes a) 0, BusRead 4 k]\<rparr>)"
proof -
  have acks: "bus_acks (Suc 0) s" using assms(1) by simp
  let ?s1 = "s\<lparr>dev_ptr := unat a, tx_status := tl (tx_status s),
               trace := trace s @ [BusWrite (addr_bytes a) 0]\<rparr>"
  have "rx_deliver ?s1 = k # rest" using assms(2) by simp
  from requestFrom_short_eq [OF this assms(3)] assms(3) show ?thesis
    by (simp add: readEEPROM_def address_phase [OF acks])
qed

lemma readEEPROMByte_short_eq:
  assumes "bus_acks 1 s" and "rx_deliver s = k # rest" and "k < 1"
  shows "readEEPROMByte a s =
    (0, s\<lparr>dev_ptr := unat a + k, tx_status := tl (tx_status s), rx_deliver := rest,
          trace := trace s @ [BusWrite (addr_bytes a) 0, BusRead 1 k]\<rparr>)"
proof -
  have acks: "bus_acks (Suc 0) s" using assms(1) by simp
  let ?s1 = "s\<lparr>dev_ptr := unat a, tx_status := tl (tx_status s),
               trace := trace s @ [BusWrite (addr_bytes a) 0]\<rparr>"
  have "rx_deliver ?s1 = k # rest" using assms(2) by simp
  from requestFrom_short_eq [OF this, of 1] assms(3) show ?thesis
    by (simp add: readEEPROMByte_def address_phase [OF acks])
qed

text \<open>
  C7. Store failures degrade, they do not stop the program. A read whose address
  transmission is not acknowledged, or whose request delivers fewer bytes than asked
  for, returns 0 (false for a relay state), with nothing changed but the bus and the
  trace. A write whose transmission is not acknowledged is reported, is not followed by
  the settle delay (the clock does not move) and is not repeated (one transmission in
  the trace); the variables in memory keep the value just set: a toggled relay state
  stays flipped and a captured code stays in its slot, while the store keeps its old
  bytes.
\<close>

theorem store_failure_degrades:
  "(bus_nacks st s \<longrightarrow>
      readEEPROM a s =
        (0, s\<lparr>tx_status := tl (tx_status s),
              trace := trace s @ [BusWrite (addr_bytes a) st, PrintLn ''I2C read failed!'']\<rparr>)
    \<and> readEEPROMByte a s =
        (0, s\<lparr>tx_status := tl (tx_status s),
              trace := trace s @ [BusWrite (addr_bytes a) st, PrintLn ''I2C read failed!'']\<rparr>)
    \<and> writeEEPROM a v s =
        s\<lparr>tx_status := tl (tx_status s),
          trace := trace s @ [BusWrite (addr_bytes a @ word_bytes v) st,
                              PrintLn ''I2C write failed!'']\<rparr>
    \<and> writeEEPROM_bool a b s =
        s\<lparr>tx_status := tl (tx_status s),
          trace := trace s @ [BusWrite (addr_bytes a @ [if b then 1 else 0]) st,
                              PrintLn ''I2C write failed!'']\<rparr>
    \<and> (i < 4 \<and> length (relayStates s) = 4 \<longrightarrow>
          relayStates (toggle_relay i s) = (relayStates s)[i := \<not> relayStates s ! i]
        \<and> mem (toggle_relay i s) = mem s \<and> clock (toggle_relay i s) = clock s)
    \<and> (learnStep s < 4 \<longrightarrow>
          buttonCodes (capture v s) = (buttonCodes s)[learnStep s := v]
        \<and> learnStep (capture v s) = Suc (learnStep s)
        \<and> mem (capture v s) = mem s))
   \<and> (bus_acks 1 s \<and> rx_deliver s = k # rest \<and> k < 4 \<longrightarrow>
      readEEPROM a s =
        (0, s\<lparr>dev_ptr := unat a + k, tx_status := tl (tx_status s), rx_deliver := rest,
              trace := trace s @ [BusWrite (addr_bytes a) 0, BusRead 4 k]\<rparr>))
   \<and> (bus_acks 1 s \<and> rx_deliver s = k # rest \<and> k < 1 \<longrightarrow>
      readEEPROMByte a s =
        (0, s\<lparr>dev_ptr := unat a + k, tx_status := tl (tx_status s), rx_deliver := rest,
              trace := trace s @ [BusWrite (addr_bytes a) 0, BusRead 1 k]\<rparr>))"
proof (intro conjI impI)
  {
    assume n: "bus_nacks st s"
    then have st: "next_status s \<noteq> 0"
      using bus_nacks_head [OF n] by (simp add: bus_nacks_def)
    show "readEEPROM a s =
        (0, s\<lparr>tx_status := tl (tx_status s),
              trace := trace s @ [BusWrite (addr_bytes a) st, PrintLn ''I2C read failed!'']\<rparr>)"
      by (rule readEEPROM_nack [OF n])
    show "readEEPROMByte a s =
        (0, s\<lparr>tx_status := tl (tx_status s),
              trace := trace s @ [BusWrite (addr_bytes a) st, PrintLn ''I2C read failed!'']\<rparr>)"
      by (rule readEEPROMByte_nack [OF n])
    show "writeEEPROM a v s =
        s\<lparr>tx_status := tl (tx_status s),
          trace := trace s @ [BusWrite (addr_bytes a @ word_bytes v) st,
                              PrintLn ''I2C write failed!'']\<rparr>"
      by (rule writeEEPROM_nack [OF n])
    show "writeEEPROM_bool a b s =
        s\<lparr>tx_status := tl (tx_status s),
          trace := trace s @ [BusWrite (addr_bytes a @ [if b then 1 else 0]) st,
                              PrintLn ''I2C write failed!'']\<rparr>"
      by (rule writeEEPROM_bool_nack [OF n])
    {
      assume "i < 4 \<and> length (relayStates s) = 4"
      then have i: "i < 4" and l: "length (relayStates s) = 4" by simp_all
      show "relayStates (toggle_relay i s) = (relayStates s)[i := \<not> relayStates s ! i]"
        by (rule toggle_relay_relayStates)
      show "mem (toggle_relay i s) = mem s"
        using st by (simp add: toggle_relay_changes(2) [OF i l])
      show "clock (toggle_relay i s) = clock s"
        using st by (simp add: toggle_relay_changes(1) [OF i l])
    }
    {
      assume k: "learnStep s < 4"
      show "buttonCodes (capture v s) = (buttonCodes s)[learnStep s := v]"
        by (simp add: capture_fields)
      show "learnStep (capture v s) = Suc (learnStep s)"
        by (simp add: capture_fields)
      show "mem (capture v s) = mem s"
        using st by (simp add: mem_capture [OF k])
    }
  }
  {
    assume "bus_acks 1 s \<and> rx_deliver s = k # rest \<and> k < 4"
    then show "readEEPROM a s =
        (0, s\<lparr>dev_ptr := unat a + k, tx_status := tl (tx_status s), rx_deliver := rest,
              trace := trace s @ [BusWrite (addr_bytes a) 0, BusRead 4 k]\<rparr>)"
      by (simp add: readEEPROM_short_eq)
  }
  {
    assume "bus_acks 1 s \<and> rx_deliver s = k # rest \<and> k < 1"
    then show "readEEPROMByte a s =
        (0, s\<lparr>dev_ptr := unat a + k, tx_status := tl (tx_status s), rx_deliver := rest,
              trace := trace s @ [BusWrite (addr_bytes a) 0, BusRead 1 k]\<rparr>)"
      by (simp add: readEEPROMByte_short_eq)
  }
qed

theorem store_failure_degrades_witness:
  "bus_nacks 2 paired_nack
   \<and> fst (readEEPROM 4 paired_nack) = 0
   \<and> fst (readEEPROMByte 17 paired_nack) = 0
   \<and> trace (writeEEPROM 4 7 paired_nack) =
       [BusWrite [0, 4, 0, 0, 0, 7] 2, PrintLn ''I2C write failed!'']
   \<and> clock (writeEEPROM 4 7 paired_nack) = clock paired_nack
   \<and> trace (writeEEPROM_bool 17 True paired_nack) =
       [BusWrite [0, 17, 1] 2, PrintLn ''I2C write failed!'']
   \<and> relayStates (toggle_relay 1 paired_nack) = [False, False, False, False]
   \<and> mem (toggle_relay 1 paired_nack) 17 = 0xFF
   \<and> buttonCodes (capture 9 paired_nack) = [9, 6, 7, 6]
   \<and> mem (capture 9 paired_nack) 3 = 0xFF
   \<and> bus_acks 1 paired_short \<and> rx_deliver paired_short = [0]
   \<and> fst (readEEPROM 4 paired_short) = 0
   \<and> fst (readEEPROMByte 17 paired_short) = 0"
proof -
  have n: "bus_nacks 2 paired_nack"
    by (simp add: bus_nacks_def paired_nack_def)
  have l: "(1::nat) < 4 \<and> length (relayStates paired_nack) = 4" and c: "learnStep paired_nack < 4"
    by (simp_all add: paired_nack_def)
  have s4: "bus_acks 1 paired_short \<and> rx_deliver paired_short = 0 # [] \<and> (0::nat) < 4"
    and s1: "bus_acks 1 paired_short \<and> rx_deliver paired_short = 0 # [] \<and> (0::nat) < 1"
    by (simp_all add: bus_acks_def paired_short_def)
  note t = store_failure_degrades [where s = paired_nack and st = 2 and i = 1 and k = 0
      and rest = "[]", THEN conjunct1, THEN mp, OF n]
  note u = store_failure_degrades [where s = paired_short and st = 2 and i = 1 and k = 0
      and rest = "[]", THEN conjunct2]
  note r = t [THEN conjunct1]
  note rb = t [THEN conjunct2, THEN conjunct1]
  note w = t [THEN conjunct2, THEN conjunct2, THEN conjunct1]
  note wb = t [THEN conjunct2, THEN conjunct2, THEN conjunct2, THEN conjunct1]
  note tg = t [THEN conjunct2, THEN conjunct2, THEN conjunct2, THEN conjunct2, THEN conjunct1,
      THEN mp, OF l]
  note cp = t [THEN conjunct2, THEN conjunct2, THEN conjunct2, THEN conjunct2, THEN conjunct2,
      THEN mp, OF c]
  note u4 = u [THEN conjunct1, THEN mp, OF s4]
  note u1 = u [THEN conjunct2, THEN mp, OF s1]
  have 1: "fst (readEEPROM 4 paired_nack) = 0"
    by (simp add: r)
  have 2: "fst (readEEPROMByte 17 paired_nack) = 0"
    by (simp add: rb)
  have tr: "trace paired_nack = []" and ck: "clock paired_nack = 0"
    and rs: "relayStates paired_nack = [False, True, False, False]"
    and bc: "buttonCodes paired_nack = [5, 6, 7, 6]" and ls: "learnStep paired_nack = 0"
    and m: "mem paired_nack = erased"
    by (simp_all add: paired_nack_def)
  have 3: "trace (writeEEPROM 4 7 paired_nack) =
       [BusWrite [0, 4, 0, 0, 0, 7] 2, PrintLn ''I2C write failed!'']"
    "clock (writeEEPROM 4 7 paired_nack) = clock paired_nack"
    by (simp_all add: w tr addr_bytes_def word_bytes_def drop_bit_eq_div)
  have 4: "trace (writeEEPROM_bool 17 True paired_nack) =
       [BusWrite [0, 17, 1] 2, PrintLn ''I2C write failed!'']"
    by (simp add: wb tr addr_bytes_def drop_bit_eq_div)
  have 5: "relayStates (toggle_relay 1 paired_nack) = [False, False, False, False]"
    "mem (toggle_relay 1 paired_nack) 17 = 0xFF"
    using tg by (simp_all add: rs m erased_def)
  have 6: "buttonCodes (capture 9 paired_nack) = [9, 6, 7, 6]"
    "mem (capture 9 paired_nack) 3 = 0xFF"
    using cp by (simp_all add: bc ls m erased_def)
  have 7: "fst (readEEPROM 4 paired_short) = 0"
    by (simp add: u4)
  have 8: "fst (readEEPROMByte 17 paired_short) = 0"
    by (simp add: u1)
  from n 1 2 3 4 5 6 7 8 s4 show ?thesis
    by simp
qed

section \<open>Startup\<close>

lemma fold_same:
  assumes "\<And>x t. f (g x t) = f t"
  shows "f (fold g xs s) = f s"
  by (induction xs arbitrary: s) (simp_all add: assms)

lemma requestFrom_bus_only:
  obtains bs d y where
    "Wire_requestFrom n s = (bs, s\<lparr>dev_ptr := d, rx_deliver := y, trace := trace s @ [BusRead n (length bs)]\<rparr>)"
proof -
  define k where "k = (case rx_deliver s of [] \<Rightarrow> n | x # _ \<Rightarrow> min x n)"
  have "Wire_requestFrom n s =
      (map (\<lambda>j. mem s (dev_ptr s + j)) [0..<k],
       s\<lparr>dev_ptr := dev_ptr s + k, rx_deliver := tl (rx_deliver s),
         trace := trace s @ [BusRead n (length (map (\<lambda>j. mem s (dev_ptr s + j)) [0..<k]))]\<rparr>)"
    by (simp add: Wire_requestFrom_def Let_def emit_def k_def)
  then show ?thesis by (rule that)
qed

lemma readEEPROM_bus_only:
  obtains d x y z where
    "snd (readEEPROM a s) = s\<lparr>dev_ptr := d, tx_status := x, rx_deliver := y, trace := z\<rparr>"
proof (cases "next_status s = 0")
  case True
  let ?s1 = "s\<lparr>dev_ptr := unat a, tx_status := tl (tx_status s),
               trace := trace s @ [BusWrite (addr_bytes a) 0]\<rparr>"
  have e: "Wire_endTransmission (addr_bytes a) s = (0, ?s1)"
    using endTransmission_eq [of a "[]" s] True by simp
  obtain bs d y where "Wire_requestFrom 4 ?s1 =
      (bs, ?s1\<lparr>dev_ptr := d, rx_deliver := y, trace := trace ?s1 @ [BusRead 4 (length bs)]\<rparr>)"
    by (rule requestFrom_bus_only)
  then have "snd (readEEPROM a s) =
      s\<lparr>dev_ptr := d, tx_status := tl (tx_status s), rx_deliver := y,
        trace := trace s @ [BusWrite (addr_bytes a) 0, BusRead 4 (length bs)]\<rparr>"
    by (simp add: readEEPROM_def e)
  then show ?thesis by (rule that)
next
  case False
  have e: "Wire_endTransmission (addr_bytes a) s =
      (next_status s, s\<lparr>tx_status := tl (tx_status s),
        trace := trace s @ [BusWrite (addr_bytes a) (next_status s)]\<rparr>)"
    using endTransmission_eq [of a "[]" s] False by simp
  have "snd (readEEPROM a s) =
      s\<lparr>dev_ptr := dev_ptr s, tx_status := tl (tx_status s), rx_deliver := rx_deliver s,
        trace := trace s @ [BusWrite (addr_bytes a) (next_status s), PrintLn ''I2C read failed!'']\<rparr>"
    using False by (simp add: readEEPROM_def e board_io_defs)
  then show ?thesis by (rule that)
qed

lemma readEEPROMByte_bus_only:
  obtains d x y z where
    "snd (readEEPROMByte a s) = s\<lparr>dev_ptr := d, tx_status := x, rx_deliver := y, trace := z\<rparr>"
proof (cases "next_status s = 0")
  case True
  let ?s1 = "s\<lparr>dev_ptr := unat a, tx_status := tl (tx_status s),
               trace := trace s @ [BusWrite (addr_bytes a) 0]\<rparr>"
  have e: "Wire_endTransmission (addr_bytes a) s = (0, ?s1)"
    using endTransmission_eq [of a "[]" s] True by simp
  obtain bs d y where "Wire_requestFrom 1 ?s1 =
      (bs, ?s1\<lparr>dev_ptr := d, rx_deliver := y, trace := trace ?s1 @ [BusRead 1 (length bs)]\<rparr>)"
    by (rule requestFrom_bus_only)
  then have "snd (readEEPROMByte a s) =
      s\<lparr>dev_ptr := d, tx_status := tl (tx_status s), rx_deliver := y,
        trace := trace s @ [BusWrite (addr_bytes a) 0, BusRead 1 (length bs)]\<rparr>"
    by (simp add: readEEPROMByte_def e)
  then show ?thesis by (rule that)
next
  case False
  have e: "Wire_endTransmission (addr_bytes a) s =
      (next_status s, s\<lparr>tx_status := tl (tx_status s),
        trace := trace s @ [BusWrite (addr_bytes a) (next_status s)]\<rparr>)"
    using endTransmission_eq [of a "[]" s] False by simp
  have "snd (readEEPROMByte a s) =
      s\<lparr>dev_ptr := dev_ptr s, tx_status := tl (tx_status s), rx_deliver := rx_deliver s,
        trace := trace s @ [BusWrite (addr_bytes a) (next_status s), PrintLn ''I2C read failed!'']\<rparr>"
    using False by (simp add: readEEPROMByte_def e board_io_defs)
  then show ?thesis by (rule that)
qed

lemma readEEPROM_same [simp]:
  "relayStates (snd (readEEPROM a s)) = relayStates s"
  "buttonCodes (snd (readEEPROM a s)) = buttonCodes s"
  "learningMode (snd (readEEPROM a s)) = learningMode s"
  "learnStep (snd (readEEPROM a s)) = learnStep s"
  "lastReceivedTime (snd (readEEPROM a s)) = lastReceivedTime s"
  "lastReceivedCode (snd (readEEPROM a s)) = lastReceivedCode s"
  "lastDebounceTime (snd (readEEPROM a s)) = lastDebounceTime s"
  "learningModeStartTime (snd (readEEPROM a s)) = learningModeStartTime s"
  "clock (snd (readEEPROM a s)) = clock s"
  "rx_available (snd (readEEPROM a s)) = rx_available s"
  "rx_value (snd (readEEPROM a s)) = rx_value s"
  "button_low (snd (readEEPROM a s)) = button_low s"
  "mem (snd (readEEPROM a s)) = mem s"
  by (rule readEEPROM_bus_only [of a s], simp)+

lemma readEEPROMByte_same [simp]:
  "relayStates (snd (readEEPROMByte a s)) = relayStates s"
  "buttonCodes (snd (readEEPROMByte a s)) = buttonCodes s"
  "learningMode (snd (readEEPROMByte a s)) = learningMode s"
  "learnStep (snd (readEEPROMByte a s)) = learnStep s"
  "lastReceivedTime (snd (readEEPROMByte a s)) = lastReceivedTime s"
  "lastReceivedCode (snd (readEEPROMByte a s)) = lastReceivedCode s"
  "lastDebounceTime (snd (readEEPROMByte a s)) = lastDebounceTime s"
  "learningModeStartTime (snd (readEEPROMByte a s)) = learningModeStartTime s"
  "clock (snd (readEEPROMByte a s)) = clock s"
  "rx_available (snd (readEEPROMByte a s)) = rx_available s"
  "rx_value (snd (readEEPROMByte a s)) = rx_value s"
  "button_low (snd (readEEPROMByte a s)) = button_low s"
  "mem (snd (readEEPROMByte a s)) = mem s"
  by (rule readEEPROMByte_bus_only [of a s], simp)+

lemma load_slot_eq:
  "load_slot i s =
     (snd (readEEPROMByte (of_nat (16 + i))
        ((snd (readEEPROM (of_nat (i * 4)) s))
           \<lparr>buttonCodes := (buttonCodes s)[i := fst (readEEPROM (of_nat (i * 4)) s)]\<rparr>)))
     \<lparr>relayStates := (relayStates s)
        [i := fst (readEEPROMByte (of_nat (16 + i))
           ((snd (readEEPROM (of_nat (i * 4)) s))
              \<lparr>buttonCodes := (buttonCodes s)[i := fst (readEEPROM (of_nat (i * 4)) s)]\<rparr>)) \<noteq> 0]\<rparr>"
proof -
  obtain v s1 where r: "readEEPROM (of_nat (i * 4)) s = (v, s1)"
    by (cases "readEEPROM (of_nat (i * 4)) s")
  then have s1: "s1 = snd (readEEPROM (of_nat (i * 4)) s)" by simp
  have bc: "buttonCodes s1 = buttonCodes s" by (simp add: s1)
  obtain b s2 where q: "readEEPROMByte (of_nat (16 + i)) (s1\<lparr>buttonCodes := (buttonCodes s)[i := v]\<rparr>) = (b, s2)"
    by (cases "readEEPROMByte (of_nat (16 + i)) (s1\<lparr>buttonCodes := (buttonCodes s)[i := v]\<rparr>)")
  then have s2: "s2 = snd (readEEPROMByte (of_nat (16 + i)) (s1\<lparr>buttonCodes := (buttonCodes s)[i := v]\<rparr>))"
    by simp
  have rs: "relayStates s2 = relayStates s" by (simp add: s2 s1)
  show ?thesis
    unfolding load_slot_def r prod.case bc q rs
    using r q by simp
qed

lemma load_slot_same [simp]:
  "learningMode (load_slot i s) = learningMode s"
  "learnStep (load_slot i s) = learnStep s"
  "lastReceivedTime (load_slot i s) = lastReceivedTime s"
  "lastReceivedCode (load_slot i s) = lastReceivedCode s"
  "lastDebounceTime (load_slot i s) = lastDebounceTime s"
  "learningModeStartTime (load_slot i s) = learningModeStartTime s"
  "clock (load_slot i s) = clock s"
  "rx_available (load_slot i s) = rx_available s"
  "rx_value (load_slot i s) = rx_value s"
  "button_low (load_slot i s) = button_low s"
  "mem (load_slot i s) = mem s"
  by (simp_all add: load_slot_eq)

lemma load_slot_buttonCodes:
  "buttonCodes (load_slot i s) = (buttonCodes s)[i := fst (readEEPROM (of_nat (i * 4)) s)]"
  by (simp add: load_slot_eq)

lemma load_slot_tx_status:
  "next_status s \<noteq> 0 \<Longrightarrow> tx_status (snd (readEEPROM a s)) = tl (tx_status s)"
  using endTransmission_eq [of a "[]" s] by (simp add: readEEPROM_def board_io_defs)

lemma report_slot_same [simp]:
  "relayStates (report_slot i s) = relayStates s"
  "buttonCodes (report_slot i s) = buttonCodes s"
  "learningMode (report_slot i s) = learningMode s"
  "learnStep (report_slot i s) = learnStep s"
  "lastReceivedTime (report_slot i s) = lastReceivedTime s"
  "lastReceivedCode (report_slot i s) = lastReceivedCode s"
  "lastDebounceTime (report_slot i s) = lastDebounceTime s"
  "learningModeStartTime (report_slot i s) = learningModeStartTime s"
  "clock (report_slot i s) = clock s"
  "rx_available (report_slot i s) = rx_available s"
  "rx_value (report_slot i s) = rx_value s"
  "button_low (report_slot i s) = button_low s"
  "mem (report_slot i s) = mem s"
  "dev_ptr (report_slot i s) = dev_ptr s"
  "tx_status (report_slot i s) = tx_status s"
  "rx_deliver (report_slot i s) = rx_deliver s"
  by (simp_all add: report_slot_def Let_def board_io_defs)

lemma digitalWrite_same [simp]:
  "relayStates (digitalWrite p l s) = relayStates s"
  "buttonCodes (digitalWrite p l s) = buttonCodes s"
  "learningMode (digitalWrite p l s) = learningMode s"
  "learnStep (digitalWrite p l s) = learnStep s"
  "lastReceivedTime (digitalWrite p l s) = lastReceivedTime s"
  "lastReceivedCode (digitalWrite p l s) = lastReceivedCode s"
  "lastDebounceTime (digitalWrite p l s) = lastDebounceTime s"
  "learningModeStartTime (digitalWrite p l s) = learningModeStartTime s"
  "clock (digitalWrite p l s) = clock s"
  "rx_available (digitalWrite p l s) = rx_available s"
  "rx_value (digitalWrite p l s) = rx_value s"
  "button_low (digitalWrite p l s) = button_low s"
  "mem (digitalWrite p l s) = mem s"
  "dev_ptr (digitalWrite p l s) = dev_ptr s"
  "tx_status (digitalWrite p l s) = tx_status s"
  "rx_deliver (digitalWrite p l s) = rx_deliver s"
  by (simp_all add: board_io_defs)

lemma Serial_println_same [simp]:
  "relayStates (Serial_println x s) = relayStates s"
  "buttonCodes (Serial_println x s) = buttonCodes s"
  "learningMode (Serial_println x s) = learningMode s"
  "learnStep (Serial_println x s) = learnStep s"
  "lastReceivedTime (Serial_println x s) = lastReceivedTime s"
  "lastReceivedCode (Serial_println x s) = lastReceivedCode s"
  "lastDebounceTime (Serial_println x s) = lastDebounceTime s"
  "learningModeStartTime (Serial_println x s) = learningModeStartTime s"
  "clock (Serial_println x s) = clock s"
  "rx_available (Serial_println x s) = rx_available s"
  "rx_value (Serial_println x s) = rx_value s"
  "button_low (Serial_println x s) = button_low s"
  "mem (Serial_println x s) = mem s"
  "dev_ptr (Serial_println x s) = dev_ptr s"
  "tx_status (Serial_println x s) = tx_status s"
  "rx_deliver (Serial_println x s) = rx_deliver s"
  by (simp_all add: board_io_defs)

text \<open>The three stages of startup before the report.\<close>

lemma setup_fn_eq:
  "setup_fn s =
     fold report_slot [0..<4]
       (Serial_println ''Setup complete. Current codes and relay states:''
         (fold (\<lambda>i t. digitalWrite (relayPins ! i) (relayStates t ! i) t) [0..<4]
           (fold load_slot [0..<4]
             (fold (\<lambda>i. digitalWrite (relayPins ! i) False) [0..<4] s))))"
  by (simp add: setup_fn_def Let_def)

lemma buttonCodes_setup_fn:
  "buttonCodes (setup_fn s) =
     buttonCodes (fold load_slot [0..<4] (fold (\<lambda>i. digitalWrite (relayPins ! i) False) [0..<4] s))"
proof -
  have a: "buttonCodes (fold report_slot xs t) = buttonCodes t" for xs t
    by (rule fold_same) simp
  have b: "buttonCodes (fold (\<lambda>i t. digitalWrite (relayPins ! i) (relayStates t ! i) t) xs t)
      = buttonCodes t" for xs t
    by (rule fold_same [where f = buttonCodes]) simp
  show ?thesis
    by (simp only: setup_fn_eq a b Serial_println_same)
qed

lemma setup_fn_keeps:
  assumes "\<And>i t. f (load_slot i t) = f t" and "\<And>p l t. f (digitalWrite p l t) = f t"
    and "\<And>i t. f (report_slot i t) = f t" and "\<And>x t. f (Serial_println x t) = f t"
  shows "f (setup_fn s) = f s"
proof -
  have a: "f (fold report_slot xs t) = f t" for xs t
    by (rule fold_same) (rule assms(3))
  have b: "f (fold (\<lambda>i t. digitalWrite (relayPins ! i) (relayStates t ! i) t) xs t) = f t" for xs t
    by (rule fold_same [where f = f]) (rule assms(2))
  have c: "f (fold load_slot xs t) = f t" for xs t
    by (rule fold_same) (rule assms(1))
  have d: "f (fold (\<lambda>i. digitalWrite (relayPins ! i) False) xs t) = f t" for xs t
    by (rule fold_same [where f = f]) (rule assms(2))
  show ?thesis
    by (simp only: setup_fn_eq a b c d assms(4))
qed

lemma setup_fn_same [simp]:
  "learningMode (setup_fn s) = learningMode s"
  "learnStep (setup_fn s) = learnStep s"
  "lastReceivedTime (setup_fn s) = lastReceivedTime s"
  "lastReceivedCode (setup_fn s) = lastReceivedCode s"
  "lastDebounceTime (setup_fn s) = lastDebounceTime s"
  "learningModeStartTime (setup_fn s) = learningModeStartTime s"
  "clock (setup_fn s) = clock s"
  "rx_available (setup_fn s) = rx_available s"
  "rx_value (setup_fn s) = rx_value s"
  "button_low (setup_fn s) = button_low s"
  "mem (setup_fn s) = mem s"
  by (rule setup_fn_keeps; simp)+

lemma length_buttonCodes_setup_fn [simp]:
  "length (buttonCodes (setup_fn s)) = length (buttonCodes s)"
  by (rule setup_fn_keeps [where f = "\<lambda>t. length (buttonCodes t)"])
    (simp_all add: load_slot_buttonCodes)

lemma upt4: "[0..<4] = [0, 1, 2, 3]"
  by (simp add: upt_rec)

text \<open>
  C8, as stated, fails: the startup load stores whatever the read returns, and a read
  that is not acknowledged returns 0, so slot 0 of the registry holds 0 after startup.
\<close>

theorem registry_zero_after_failed_load:
  "buttonCodes cold_start_nack ! 0 = 0"
proof -
  define s1 where "s1 = fold (\<lambda>i. digitalWrite (relayPins ! i) False) [0..<4] (power_on erased [2] [])"
  have tx: "tx_status s1 = [2]"
    unfolding s1_def by (simp add: fold_same [where f = tx_status] board_io_defs power_on_def)
  have len: "length (buttonCodes s1) = 4"
    unfolding s1_def by (simp add: fold_same [where f = buttonCodes] power_on_def)
  have "bus_nacks 2 s1"
    by (simp add: bus_nacks_def tx)
  from readEEPROM_nack [OF this] have r0: "fst (readEEPROM (of_nat (0 * 4)) s1) = 0"
    by simp
  have "buttonCodes (fold load_slot [0..<4] s1) ! 0 = 0"
    using len r0 by (simp add: upt4 load_slot_buttonCodes)
  then show ?thesis
    by (simp add: cold_start_nack_def buttonCodes_setup_fn s1_def)
qed

section \<open>The registry never takes a zero from learning\<close>

lemma loop_length [simp]:
  "length (buttonCodes (fst (loop s obs))) = length (buttonCodes s)"
proof -
  have "length (buttonCodes (fst (enterLearningMode s obs))) = length (buttonCodes s)"
    by (simp add: enterLearningMode_eq)
  then show ?thesis
    by (auto simp: loop_def Let_def split: prod.splits)
qed

lemma run_length [simp]: "length (buttonCodes (run s obs)) = length (buttonCodes s)"
proof (induction s obs rule: run.induct)
  case (1 s)
  then show ?case by simp
next
  case (2 s ob obs)
  obtain s1 obs1 where l: "loop (env ob s) obs = (s1, obs1)"
    by (cases "loop (env ob s) obs")
  have z: "length (buttonCodes s1) = length (buttonCodes s)"
    using loop_length [of "env ob s" obs] l by simp
  show ?case
  proof (cases "learningMode s1")
    case True
    then show ?thesis using l z by simp
  next
    case False
    from "2.IH" [OF l [symmetric] False] z l False show ?thesis by simp
  qed
qed

text \<open>
  C8, amended. Learning and run-time dispatch never put 0 in a slot of the registry in
  memory: a slot that holds a non-zero code still holds a non-zero code after any
  learning session and after any number of passes of the main loop, and the dispatcher
  does not write the registry at all. A registry without a 0 stays without one.
\<close>

theorem registry_zero_never_learned:
  "(buttonCodes s ! i \<noteq> 0 \<longrightarrow>
      buttonCodes (fst (enterLearningMode s obs)) ! i \<noteq> 0
    \<and> buttonCodes (run s obs) ! i \<noteq> 0)
   \<and> buttonCodes (handleRFInput s) = buttonCodes s
   \<and> (0 \<notin> set (buttonCodes s) \<longrightarrow> 0 \<notin> set (buttonCodes (run s obs)))"
proof (intro conjI impI)
  assume "buttonCodes s ! i \<noteq> 0"
  then show "buttonCodes (fst (enterLearningMode s obs)) ! i \<noteq> 0"
    using session_zero [of "session_start s" obs i] by (auto simp: enterLearningMode_eq)
  show "buttonCodes (run s obs) ! i \<noteq> 0"
    using \<open>buttonCodes s ! i \<noteq> 0\<close> run_zero [of s obs i] by auto
next
  show "buttonCodes (handleRFInput s) = buttonCodes s"
    by simp
next
  assume z: "0 \<notin> set (buttonCodes s)"
  show "0 \<notin> set (buttonCodes (run s obs))"
  proof
    assume "0 \<in> set (buttonCodes (run s obs))"
    then obtain j where j: "j < length (buttonCodes (run s obs))" "buttonCodes (run s obs) ! j = 0"
      by (auto simp: in_set_conv_nth)
    then have "buttonCodes s ! j = 0"
      using run_zero [of s obs j] by simp
    moreover have "j < length (buttonCodes s)"
      using j(1) by simp
    ultimately show False
      using z by (metis nth_mem)
  qed
qed

theorem registry_zero_never_learned_witness:
  "buttonCodes paired ! 1 = 6
   \<and> buttonCodes (fst (enterLearningMode paired [Obs 10 (Some 9) False])) ! 1 \<noteq> 0
   \<and> buttonCodes (run paired [Obs 100 None True, Obs 10 (Some 9) False]) ! 1 \<noteq> 0
   \<and> 0 \<notin> set (buttonCodes paired)
   \<and> 0 \<notin> set (buttonCodes (run paired [Obs 100 None True, Obs 10 (Some 9) False]))"
proof -
  have a: "buttonCodes paired ! 1 \<noteq> 0" and b: "0 \<notin> set (buttonCodes paired)"
    by simp_all
  note t = registry_zero_never_learned [where s = paired and i = 1]
  from t [where obs = "[Obs 10 (Some 9) False]"] a
  have "buttonCodes (fst (enterLearningMode paired [Obs 10 (Some 9) False])) ! 1 \<noteq> 0"
    by blast
  moreover from t [where obs = "[Obs 100 None True, Obs 10 (Some 9) False]"] a b
  have "buttonCodes (run paired [Obs 100 None True, Obs 10 (Some 9) False]) ! 1 \<noteq> 0
    \<and> 0 \<notin> set (buttonCodes (run paired [Obs 100 None True, Obs 10 (Some 9) False]))"
    by blast
  ultimately show ?thesis
    using b by simp
qed

section \<open>Learning sessions\<close>

lemma learn_loop_append:
  "learningMode (fst (learn_loop s xs)) \<Longrightarrow>
   learn_loop s (xs @ ys) = learn_loop (fst (learn_loop s xs)) ys"
proof (induction xs arbitrary: s)
  case Nil
  then show ?case by simp
next
  case (Cons ob xs)
  show ?case
  proof (cases "learningMode s")
    case True
    with Cons show ?thesis by simp
  next
    case False
    with Cons.prems show ?thesis by simp
  qed
qed

lemma session_running_since:
  assumes "since_start s \<le> 300000"
  shows "learningMode (fst (learn_loop s obs)) \<longrightarrow> since_start (fst (learn_loop s obs)) \<le> 300000"
  by (rule learn_loop_inv [where P = "\<lambda>t. learningMode t \<longrightarrow> since_start t \<le> 300000"])
    (use assms in \<open>auto simp: learningMode_learn_body\<close>)

lemma session_not_takes:
  assumes "\<not> takes s"
  shows "\<not> takes (fst (learn_loop s obs))"
  by (rule learn_loop_inv [where P = "\<lambda>t. \<not> takes t"])
    (use assms not_takes_learn_body in auto)

lemma late_poll:
  assumes "learningMode t" and "since_start t \<le> 300000" and "\<not> takes t"
    and "signal late = None"
    and "300000 < unat (elapsed late)" and "unat (elapsed late) + 300000 < 2 ^ 32"
  shows "learn_loop t (late # rest) = (learn_body (env late t), rest)"
    and "\<not> learningMode (learn_body (env late t))"
    and "buttonCodes (learn_body (env late t)) = buttonCodes t"
    and "learnStep (learn_body (env late t)) = learnStep t"
    and "trace (learn_body (env late t)) = trace t @ [PrintLn ''Learning mode timeout. Exiting...'']"
proof -
  define e where "e = env late t"
  have nt: "\<not> takes e"
    using assms(3,4) by (simp add: e_def)
  have "clock e - learningModeStartTime e = (clock t - learningModeStartTime t) + elapsed late"
    by (simp add: e_def)
  moreover have "unat ((clock t - learningModeStartTime t) + elapsed late) =
      unat (clock t - learningModeStartTime t) + unat (elapsed late)"
    using assms(2,6) by (intro unat_add_lem [THEN iffD1]) (simp add: since_start_def)
  ultimately have since: "300000 < since_start e"
    using assms(5) by (simp add: since_start_def)
  then have out: "clock e - learningModeStartTime e > learningModeTimeout"
    by (simp add: timed_out_iff)
  have body: "learn_body e =
      e\<lparr>learningMode := False,
        trace := trace e @ [PrintLn ''Learning mode timeout. Exiting...'']\<rparr>"
    using nt out by (simp add: learn_body_eq check_timeout_def)
  show "\<not> learningMode (learn_body (env late t))"
    by (simp add: body flip: e_def)
  then show "learn_loop t (late # rest) = (learn_body (env late t), rest)"
    using assms(1) by simp
  show "buttonCodes (learn_body (env late t)) = buttonCodes t"
    using nt by (simp add: learn_body_fields flip: e_def) (simp add: e_def)
  show "learnStep (learn_body (env late t)) = learnStep t"
    using nt by (simp add: learn_body_fields flip: e_def) (simp add: e_def)
  show "trace (learn_body (env late t)) = trace t @ [PrintLn ''Learning mode timeout. Exiting...'']"
    by (simp add: body flip: e_def) (simp add: e_def)
qed

lemma stale_poll:
  assumes "learningMode t" and "signal ob = Some v" and "v = lastReceivedCode t"
    and "since_start t + unat (elapsed ob) \<le> 300000"
  shows "learn_loop t (ob # rest) = learn_loop (learn_body (env ob t)) rest"
    and "learningMode (learn_body (env ob t))"
    and "buttonCodes (learn_body (env ob t)) = buttonCodes t"
    and "learnStep (learn_body (env ob t)) = learnStep t"
    and "lastReceivedCode (learn_body (env ob t)) = lastReceivedCode t"
    and "since_start (learn_body (env ob t)) \<le> since_start t + unat (elapsed ob)"
    and "\<not> takes (learn_body (env ob t))"
proof -
  define e where "e = env ob t"
  have nt: "\<not> takes e"
    using assms(2,3) by (simp add: e_def)
  have since: "since_start (learn_body e) \<le> since_start t + unat (elapsed ob)"
    using since_learn_body [of e] since_env [of ob t] nt by (simp add: e_def)
  then show "since_start (learn_body (env ob t)) \<le> since_start t + unat (elapsed ob)"
    by (simp add: e_def)
  show "learn_loop t (ob # rest) = learn_loop (learn_body (env ob t)) rest"
    using assms(1) by simp
  show "learningMode (learn_body (env ob t))"
    using assms(1,4) since nt
    by (simp add: learningMode_learn_body flip: e_def) (simp add: e_def)
  show "buttonCodes (learn_body (env ob t)) = buttonCodes t"
    using nt by (simp add: learn_body_fields flip: e_def) (simp add: e_def)
  show "learnStep (learn_body (env ob t)) = learnStep t"
    using nt by (simp add: learn_body_fields flip: e_def) (simp add: e_def)
  show "lastReceivedCode (learn_body (env ob t)) = lastReceivedCode t"
    using nt by (simp add: learn_body_fields flip: e_def) (simp add: e_def)
  show "\<not> takes (learn_body (env ob t))"
    by (rule not_takes_learn_body)
qed

lemma stale_fields:
  "lastReceivedCode stale = 5" "\<not> rx_available stale" "length (buttonCodes stale) = 4"
  "clock stale = lastReceivedTime stale"
proof -
  define w where "w = env (Obs 100 (Some 5) False) (setup_fn board)"
  have a: "rx_available w" "rx_value w \<noteq> 0" "passes_filter w"
    by (simp_all add: w_def passes_filter_def board_def power_on_def)
  have s: "stale = handleRFInput w"
    by (simp add: stale_def w_def)
  show "lastReceivedCode stale = 5"
    using accepted_stamps(1) [OF a] by (simp add: s) (simp add: w_def)
  show "clock stale = lastReceivedTime stale"
    using accepted_stamps(2) [OF a] by (simp add: s)
  show "\<not> rx_available stale"
    unfolding s by (rule handleRFInput_cases [of w]) (use a in simp_all)
  show "length (buttonCodes stale) = 4"
    by (simp add: s) (simp add: w_def board_def power_on_def)
qed




text \<open>
  C2, as stated, fails: four distinct non-zero codes do not fill the four slots when
  the first of them is the code the dispatcher received last. After the dispatcher has
  received 5, a session that is shown 5, 6, 7 and 8 stores 6, 7 and 8 in slots 0 to 2
  and is still waiting for relay 4.
\<close>

theorem four_codes_leave_session_open:
  "distinct [5, 6, 7, 8 :: u32]
   \<and> learningMode (fst (enterLearningMode stale
        [Obs 100 (Some 5) False, Obs 100 (Some 6) False, Obs 100 (Some 7) False,
         Obs 100 (Some 8) False]))
   \<and> learnStep (fst (enterLearningMode stale
        [Obs 100 (Some 5) False, Obs 100 (Some 6) False, Obs 100 (Some 7) False,
         Obs 100 (Some 8) False])) = 3
   \<and> take 3 (buttonCodes (fst (enterLearningMode stale
        [Obs 100 (Some 5) False, Obs 100 (Some 6) False, Obs 100 (Some 7) False,
         Obs 100 (Some 8) False]))) = [6, 7, 8]"
proof -
  let ?t = "session_start stale"
  let ?ob = "Obs 100 (Some 5) False"
  let ?rest = "[Obs 100 (Some 6) False, Obs 100 (Some 7) False, Obs 100 (Some 8) False]"
  define s' where "s' = learn_body (env ?ob ?t)"
  have a: "learningMode ?t" "signal ?ob = Some 5" "5 = lastReceivedCode ?t"
    "since_start ?t + unat (elapsed ?ob) \<le> 300000"
    by (simp_all add: stale_fields)
  note p = stale_poll [OF a, folded s'_def]
  have e: "enterLearningMode stale (?ob # ?rest) = learn_loop s' ?rest"
    using p(1) [of ?rest] by (simp add: enterLearningMode_eq)
  have since: "since_start s' \<le> 100"
    using p(6) by simp
  have h: "learningMode s'" "learnStep s' < 4" "\<not> takes s'"
    "chain_ok (lastReceivedCode s') (signals ?rest)"
    "learnStep s' + length (signals ?rest) \<le> 4"
    "length (buttonCodes s') = 4"
    "since_start s' + span ?rest + 2020 * length (signals ?rest) \<le> 300000"
    using p(2,3,4,5,7) since by (simp_all add: stale_fields)
  from learn_loop_captures [OF h] p(4)
  have "buttonCodes (fst (learn_loop s' ?rest)) = [6, 7, 8] @ drop 3 (buttonCodes s')
    \<and> learnStep (fst (learn_loop s' ?rest)) = 3
    \<and> learningMode (fst (learn_loop s' ?rest))"
    by (simp add: numeral_3_eq_3 del: learn_loop.simps)
  then show ?thesis
    unfolding e by (simp del: learn_loop.simps)
qed

lemma since_env_exact:
  assumes "since_start s + unat (elapsed ob) < 2 ^ 32"
  shows "since_start (env ob s) = since_start s + unat (elapsed ob)"
proof -
  have "clock (env ob s) - learningModeStartTime (env ob s) =
      (clock s - learningModeStartTime s) + elapsed ob"
    by simp
  then have "since_start (env ob s) = unat ((clock s - learningModeStartTime s) + elapsed ob)"
    unfolding since_start_def by (rule arg_cong)
  moreover have "unat ((clock s - learningModeStartTime s) + elapsed ob) =
      unat (clock s - learningModeStartTime s) + unat (elapsed ob)"
    using assms by (intro unat_add_lem [THEN iffD1]) (simp add: since_start_def)
  ultimately show ?thesis
    by (simp only: since_start_def)
qed

lemma since_capture_lower:
  assumes "since_start s + 2020 < 2 ^ 32"
  shows "since_start s \<le> since_start (capture v s)"
proof -
  define x :: u32 where
    "x = (if next_status s = 0 then 20 else 0) + (if 3 \<le> learnStep s then 0 else 2000)"
  have x: "unat x \<le> 2020"
    by (simp add: x_def)
  have "clock (capture v s) - learningModeStartTime (capture v s) =
      (clock s - learningModeStartTime s) + x"
    by (simp add: capture_fields x_def add.assoc)
  then have "since_start (capture v s) = unat ((clock s - learningModeStartTime s) + x)"
    unfolding since_start_def by (rule arg_cong)
  moreover have "unat ((clock s - learningModeStartTime s) + x) =
      unat (clock s - learningModeStartTime s) + unat x"
    using assms x by (intro unat_add_lem [THEN iffD1]) (simp add: since_start_def)
  ultimately show ?thesis
    by (simp only: since_start_def)
qed

lemma since_learn_body_lower:
  assumes "since_start s + 2020 < 2 ^ 32"
  shows "since_start s \<le> since_start (learn_body s)"
  using since_capture_lower [OF assms, of "rx_value s"] by (simp add: learn_body_eq)

text \<open>
  While fewer than four codes have been taken and the budget holds, the counter has
  moved on by at least the time that went by in the observations.
\<close>

lemma learn_loop_elapsed:
  assumes "learningMode s" and "\<not> takes s"
    and "chain_ok (lastReceivedCode s) (signals obs)"
    and "learnStep s + length (signals obs) < 4"
    and "since_start s + span obs + 2020 * length (signals obs) \<le> 300000"
  shows "since_start s + span obs \<le> since_start (fst (learn_loop s obs))"
  using assms
proof (induction obs arbitrary: s)
  case Nil
  then show ?case by simp
next
  case (Cons ob obs)
  define e where "e = env ob s"
  define s' where "s' = learn_body e"
  have loop: "learn_loop s (ob # obs) = learn_loop s' obs"
    using Cons.prems(1) by (simp add: s'_def e_def)
  have since_e: "since_start e = since_start s + unat (elapsed ob)"
    unfolding e_def using Cons.prems(5) by (intro since_env_exact) simp
  have lower: "since_start e \<le> since_start s'"
    unfolding s'_def using since_e Cons.prems(5) by (intro since_learn_body_lower) simp
  have nt: "\<not> takes s'"
    unfolding s'_def by (rule not_takes_learn_body)
  show ?case
  proof (cases "signal ob")
    case None
    then have te: "\<not> takes e"
      using Cons.prems(2) by (simp add: e_def)
    have sig: "signals (ob # obs) = signals obs"
      using None by simp
    have since: "since_start s' \<le> since_start s + unat (elapsed ob)"
      using since_learn_body [of e] te since_e by (simp add: s'_def)
    have keep: "learnStep s' = learnStep s" "lastReceivedCode s' = lastReceivedCode s"
      using te by (simp_all add: s'_def learn_body_fields) (simp_all add: e_def)
    have lm: "learningMode s'"
      using Cons.prems(1,5) since te
      by (simp add: s'_def learningMode_learn_body) (simp add: e_def flip: s'_def)
    have budget: "since_start s' + span obs + 2020 * length (signals obs) \<le> 300000"
      using Cons.prems(5) since sig by simp
    have "since_start s' + span obs \<le> since_start (fst (learn_loop s' obs))"
      using Cons.IH [OF lm nt _ _ budget] Cons.prems(3,4) keep sig by simp
    then show ?thesis
      unfolding loop using lower since_e by simp
  next
    case (Some v)
    have sig: "signals (ob # obs) = v # signals obs"
      using Some by simp
    have v: "v \<noteq> 0" "v \<noteq> lastReceivedCode s" "chain_ok v (signals obs)"
      using Cons.prems(3) sig by simp_all
    have te: "takes e" and rv: "rx_value e = v"
      using v Some by (simp_all add: e_def)
    have since: "since_start s' \<le> since_start s + unat (elapsed ob) + 2020"
      using since_learn_body [of e] te since_e by (simp add: s'_def)
    have upd: "learnStep s' = Suc (learnStep s)" "lastReceivedCode s' = v"
      using te rv by (simp_all add: s'_def learn_body_fields) (simp_all add: e_def)
    have k: "learnStep s < 3"
      using Cons.prems(4) Some by simp
    have lm: "learningMode s'"
      using Cons.prems(1,5) since te k Some
      by (simp add: s'_def learningMode_learn_body) (simp add: e_def flip: s'_def)
    have budget: "since_start s' + span obs + 2020 * length (signals obs) \<le> 300000"
      using Cons.prems(5) since Some by simp
    have "since_start s' + span obs \<le> since_start (fst (learn_loop s' obs))"
      using Cons.IH [OF lm nt _ _ budget] Cons.prems(4) v(3) upd Some by simp
    then show ?thesis
      unfolding loop using lower since_e by simp
  qed
qed

lemma session_not_takes_after:
  assumes "learningMode s" and "obs \<noteq> []"
  shows "\<not> takes (fst (learn_loop s obs))"
proof -
  obtain ob obs' where o: "obs = ob # obs'"
    using assms(2) by (cases obs) simp_all
  have "\<not> takes (fst (learn_loop (learn_body (env ob s)) obs'))"
    by (rule session_not_takes) (rule not_takes_learn_body)
  then show ?thesis
    using assms(1) by (simp add: o)
qed

text \<open>
  One pass of a running session: the session goes on exactly when fewer than four
  codes are captured and the counter at the check is no more than the window past the
  start time. A pass that finds the window elapsed says so last.
\<close>

lemma learn_pass:
  assumes "learningMode t" and "learnStep t < 4"
  shows "learningMode (learn_body (env ob t)) =
      (learnStep (learn_body (env ob t)) < 4
       \<and> \<not> clock (learn_body (env ob t)) - learningModeStartTime t > learningModeTimeout)"
    and "clock (learn_body (env ob t)) - learningModeStartTime t > learningModeTimeout \<Longrightarrow>
      last (trace (learn_body (env ob t))) = PrintLn ''Learning mode timeout. Exiting...''"
proof -
  define e where "e = env ob t"
  define b where "b = learn_body e"
  define c where "c = (if takes e then capture (rx_value e) e else e)"
  have e: "learningMode e" "learnStep e = learnStep t"
    "learningModeStartTime e = learningModeStartTime t"
    using assms(1) by (simp_all add: e_def)
  have st: "learningModeStartTime b = learningModeStartTime t"
    by (simp add: b_def e)
  have step: "(learnStep b < 4) = (\<not> (takes e \<and> 3 \<le> learnStep e))"
    using assms(2) e(2) by (auto simp: b_def learn_body_fields)
  have "learningMode b =
      (\<not> (takes e \<and> 3 \<le> learnStep e) \<and> \<not> clock b - learningModeStartTime b > learningModeTimeout)"
    using e(1) unfolding timed_out_iff b_def by (auto simp: learningMode_learn_body)
  then show "learningMode (learn_body (env ob t)) =
      (learnStep (learn_body (env ob t)) < 4
       \<and> \<not> clock (learn_body (env ob t)) - learningModeStartTime t > learningModeTimeout)"
    unfolding step [symmetric] st by (simp only: b_def e_def)
  have bc: "b = check_timeout c"
    by (simp add: b_def c_def learn_body_eq)
  have cc: "clock c = clock b" "learningModeStartTime c = learningModeStartTime t"
    using st by (simp_all add: bc)
  {
    assume "clock (learn_body (env ob t)) - learningModeStartTime t > learningModeTimeout"
    then have "clock c - learningModeStartTime c > learningModeTimeout"
      by (simp add: cc b_def e_def)
    then have "last (trace b) = PrintLn ''Learning mode timeout. Exiting...''"
      by (simp add: bc check_timeout_def)
    then show "last (trace (learn_body (env ob t))) = PrintLn ''Learning mode timeout. Exiting...''"
      by (simp only: b_def e_def)
  }
qed

text \<open>A pass with nothing to take only lets the time of its observation go by.\<close>

lemma idle_pass:
  assumes "\<not> takes t" and "signal ob = None"
  shows "clock (learn_body (env ob t)) = clock t + elapsed ob"
    and "buttonCodes (learn_body (env ob t)) = buttonCodes t"
    and "learnStep (learn_body (env ob t)) = learnStep t"
proof -
  define e where "e = env ob t"
  have nt: "\<not> takes e"
    using assms by (simp add: e_def)
  have body: "learn_body e = check_timeout e"
    using nt by (simp add: learn_body_eq)
  show "clock (learn_body (env ob t)) = clock t + elapsed ob"
    by (simp add: body flip: e_def) (simp add: e_def)
  show "buttonCodes (learn_body (env ob t)) = buttonCodes t"
    by (simp add: body flip: e_def) (simp add: e_def)
  show "learnStep (learn_body (env ob t)) = learnStep t"
    by (simp add: body flip: e_def) (simp add: e_def)
qed

lemma learn_loop_snoc:
  assumes "learningMode (fst (learn_loop s obs))"
  shows "fst (learn_loop s (obs @ [ob])) = learn_body (env ob (fst (learn_loop s obs)))"
    and "\<not> learningMode (learn_body (env ob (fst (learn_loop s obs)))) \<Longrightarrow>
      learn_loop s (obs @ ob # rest) = (learn_body (env ob (fst (learn_loop s obs))), rest)"
proof -
  define t where "t = fst (learn_loop s obs)"
  have lm: "learningMode t"
    using assms by (simp add: t_def)
  have "learn_loop s (obs @ [ob]) = learn_loop t [ob]"
    unfolding t_def using assms by (rule learn_loop_append)
  then show "fst (learn_loop s (obs @ [ob])) = learn_body (env ob (fst (learn_loop s obs)))"
    using lm by (simp add: t_def)
  have app: "learn_loop s (obs @ ob # rest) = learn_loop t (ob # rest)"
    unfolding t_def using assms by (rule learn_loop_append)
  {
    assume "\<not> learningMode (learn_body (env ob (fst (learn_loop s obs))))"
    then have "\<not> learningMode (learn_body (env ob t))"
      by (simp add: t_def)
    then have "learn_loop t (ob # rest) = (learn_body (env ob t), rest)"
      using lm by (cases rest) simp_all
    then show "learn_loop s (obs @ ob # rest) = (learn_body (env ob (fst (learn_loop s obs))), rest)"
      using app by (simp add: t_def)
  }
qed

text \<open>
  C2, amended. Take a session entered with no acceptable code pending in the receiver,
  and observations whose decoded codes are each non-zero and different from the code
  before (the first: from the last received code at entry), at most four of them, all
  within the window even with the pauses after each capture. Then the codes fill the
  slots from slot 0 in order, the remaining slots keep their previous codes, and the
  session is complete exactly when four codes were shown. If fewer than four were
  shown, the first idle poll at which the time gone by since entry, summed over all the
  observations of the session, is more than 300000 ms ends the session as timed out,
  with the registry as the captures left it; the captures in between do not restart
  the window. In every session, whatever the observations, a pass of the running loop
  leaves the session running exactly when fewer than four codes are captured and the
  counter at the end of the pass is no more than 300000 ms past the counter at entry;
  a pass that finds the window elapsed reports the timeout, and a pass that ends the
  session returns with the observations it has not consumed; an idle pass changes
  neither the index nor the registry. In every session the slots from the current
  index on hold their previous codes, the window is measured from the clock at entry,
  and the loop is left only with four codes captured or with the window elapsed.
\<close>

theorem session_outcome:
  "(length (buttonCodes s) = 4 \<and> \<not> takes s
      \<and> chain_ok (lastReceivedCode s) (signals obs) \<and> length (signals obs) \<le> 4
      \<and> span obs + 2020 * length (signals obs) \<le> 300000 \<longrightarrow>
      (let t = fst (enterLearningMode s obs)
       in buttonCodes t = signals obs @ drop (length (signals obs)) (buttonCodes s)
        \<and> learnStep t = length (signals obs)
        \<and> learningMode t = (length (signals obs) < 4))
    \<and> (length (signals obs) < 4 \<and> signal late = None
        \<and> 300000 < span obs + unat (elapsed late) \<and> unat (elapsed late) + 300000 < 2 ^ 32 \<longrightarrow>
        (let u = fst (enterLearningMode s (obs @ late # rest))
         in \<not> learningMode u
          \<and> learnStep u = length (signals obs)
          \<and> buttonCodes u = signals obs @ drop (length (signals obs)) (buttonCodes s)
          \<and> last (trace u) = PrintLn ''Learning mode timeout. Exiting...''
          \<and> snd (enterLearningMode s (obs @ late # rest)) = rest)))
   \<and> (let t = fst (enterLearningMode s obs);
          u = fst (enterLearningMode s (obs @ [ob]))
      in learningMode t \<longrightarrow>
           learningMode u = (learnStep u < 4 \<and> \<not> millis u - clock s > learningModeTimeout)
         \<and> (millis u - clock s > learningModeTimeout \<longrightarrow>
              last (trace u) = PrintLn ''Learning mode timeout. Exiting...'')
         \<and> (\<not> learningMode u \<longrightarrow> enterLearningMode s (obs @ ob # rest) = (u, rest))
         \<and> (signal ob = None \<and> (obs \<noteq> [] \<or> \<not> takes s) \<longrightarrow>
              millis u = millis t + elapsed ob
            \<and> learnStep u = learnStep t \<and> buttonCodes u = buttonCodes t))
   \<and> (let t = fst (enterLearningMode s obs)
       in learnStep t \<le> 4
        \<and> drop (learnStep t) (buttonCodes t) = drop (learnStep t) (buttonCodes s)
        \<and> learningModeStartTime t = clock s
        \<and> (\<not> learningMode t \<longrightarrow>
             learnStep t = 4 \<or> millis t - learningModeStartTime t > learningModeTimeout))"
proof (intro conjI impI)
  define s0 where "s0 = session_start s"
  define t where "t = fst (learn_loop s0 obs)"
  have en: "enterLearningMode s xs = learn_loop s0 xs" for xs
    by (simp add: enterLearningMode_eq s0_def)
  have s0: "learningMode s0" "learnStep s0 = 0" "since_start s0 = 0"
    "buttonCodes s0 = buttonCodes s" "lastReceivedCode s0 = lastReceivedCode s"
    "takes s0 = takes s" "learningModeStartTime s0 = clock s"
    by (simp_all add: s0_def)
  have st: "learningModeStartTime t = clock s"
    by (simp add: t_def s0)
  have bound: "learnStep t \<le> 4" "learningMode t \<longrightarrow> learnStep t < 4"
    using session_bound [of s0 obs] by (simp_all add: s0 t_def)
  {
    assume h: "length (buttonCodes s) = 4 \<and> \<not> takes s
      \<and> chain_ok (lastReceivedCode s) (signals obs) \<and> length (signals obs) \<le> 4
      \<and> span obs + 2020 * length (signals obs) \<le> 300000"
    then have c: "learningMode s0" "learnStep s0 < 4" "\<not> takes s0"
      "chain_ok (lastReceivedCode s0) (signals obs)"
      "learnStep s0 + length (signals obs) \<le> 4" "length (buttonCodes s0) = 4"
      "since_start s0 + span obs + 2020 * length (signals obs) \<le> 300000"
      by (simp_all add: s0)
    from learn_loop_captures [OF c]
    have r: "buttonCodes t = signals obs @ drop (length (signals obs)) (buttonCodes s)"
      "learnStep t = length (signals obs)" "learningMode t = (length (signals obs) < 4)"
      by (simp_all add: s0 t_def)
    then show "let t = fst (enterLearningMode s obs)
       in buttonCodes t = signals obs @ drop (length (signals obs)) (buttonCodes s)
        \<and> learnStep t = length (signals obs)
        \<and> learningMode t = (length (signals obs) < 4)"
      by (simp add: Let_def en t_def)
    assume l: "length (signals obs) < 4 \<and> signal late = None
        \<and> 300000 < span obs + unat (elapsed late) \<and> unat (elapsed late) + 300000 < 2 ^ 32"
    then have lm: "learningMode t"
      using r(3) by simp
    have k: "learnStep t < 4"
      using bound(2) lm by simp
    have si: "since_start t \<le> 300000"
      using session_running_since [of s0 obs] lm by (simp add: s0 t_def)
    have nt: "\<not> takes t"
      unfolding t_def by (rule session_not_takes) (rule c(3))
    have "since_start s0 + span obs \<le> since_start t"
      unfolding t_def using c(1,3,4) l c(7) by (intro learn_loop_elapsed) (simp_all add: s0)
    then have lower: "span obs \<le> since_start t"
      by (simp add: s0)
    define b where "b = learn_body (env late t)"
    have "since_start (env late t) = since_start t + unat (elapsed late)"
      using si l by (intro since_env_exact) simp
    then have "300000 < since_start (env late t)"
      using lower l by simp
    then have "clock (env late t) - learningModeStartTime (env late t) > learningModeTimeout"
      by (simp only: timed_out_iff)
    then have out: "clock b - learningModeStartTime t > learningModeTimeout"
      using idle_pass(1) [OF nt, of late] l by (simp add: b_def)
    have nb: "\<not> learningMode b"
      using learn_pass(1) [OF lm k, of late] out by (simp add: b_def)
    have tr: "last (trace b) = PrintLn ''Learning mode timeout. Exiting...''"
      using learn_pass(2) [OF lm k, of late] out by (simp add: b_def)
    have keep: "buttonCodes b = buttonCodes t" "learnStep b = learnStep t"
      using idle_pass(2,3) [OF nt, of late] l by (simp_all add: b_def)
    have "learn_loop s0 (obs @ late # rest) = (b, rest)"
      unfolding b_def t_def using lm nb
      by (intro learn_loop_snoc(2)) (simp_all add: t_def b_def)
    then have "enterLearningMode s (obs @ late # rest) = (b, rest)"
      by (simp add: en)
    then show "let u = fst (enterLearningMode s (obs @ late # rest))
         in \<not> learningMode u
          \<and> learnStep u = length (signals obs)
          \<and> buttonCodes u = signals obs @ drop (length (signals obs)) (buttonCodes s)
          \<and> last (trace u) = PrintLn ''Learning mode timeout. Exiting...''
          \<and> snd (enterLearningMode s (obs @ late # rest)) = rest"
      using nb tr keep r(1,2) by (simp add: Let_def)
  }
  show "let t = fst (enterLearningMode s obs);
          u = fst (enterLearningMode s (obs @ [ob]))
      in learningMode t \<longrightarrow>
           learningMode u = (learnStep u < 4 \<and> \<not> millis u - clock s > learningModeTimeout)
         \<and> (millis u - clock s > learningModeTimeout \<longrightarrow>
              last (trace u) = PrintLn ''Learning mode timeout. Exiting...'')
         \<and> (\<not> learningMode u \<longrightarrow> enterLearningMode s (obs @ ob # rest) = (u, rest))
         \<and> (signal ob = None \<and> (obs \<noteq> [] \<or> \<not> takes s) \<longrightarrow>
              millis u = millis t + elapsed ob
            \<and> learnStep u = learnStep t \<and> buttonCodes u = buttonCodes t)"
    unfolding Let_def en t_def [symmetric]
  proof (intro impI)
    assume lm: "learningMode t"
    define b where "b = learn_body (env ob t)"
    have k: "learnStep t < 4"
      using bound(2) lm by simp
    have u: "fst (learn_loop s0 (obs @ [ob])) = b"
      unfolding b_def t_def using lm by (intro learn_loop_snoc(1)) (simp add: t_def)
    have p1: "learningMode b = (learnStep b < 4 \<and> \<not> millis b - clock s > learningModeTimeout)"
      using learn_pass(1) [OF lm k, of ob] by (simp add: b_def st millis_def)
    have p2: "millis b - clock s > learningModeTimeout \<longrightarrow>
        last (trace b) = PrintLn ''Learning mode timeout. Exiting...''"
      using learn_pass(2) [OF lm k, of ob] by (simp add: b_def st millis_def)
    have p3: "\<not> learningMode b \<longrightarrow> learn_loop s0 (obs @ ob # rest) = (b, rest)"
      unfolding b_def t_def using lm by (intro impI learn_loop_snoc(2)) (simp_all add: t_def)
    have p4: "signal ob = None \<and> (obs \<noteq> [] \<or> \<not> takes s) \<longrightarrow>
        millis b = millis t + elapsed ob \<and> learnStep b = learnStep t \<and> buttonCodes b = buttonCodes t"
    proof (intro impI)
      assume i: "signal ob = None \<and> (obs \<noteq> [] \<or> \<not> takes s)"
      have nt: "\<not> takes t"
      proof (cases "obs = []")
        case True
        then show ?thesis using i by (simp add: t_def s0)
      next
        case False
        then show ?thesis
          unfolding t_def using s0(1) by (intro session_not_takes_after)
      qed
      show "millis b = millis t + elapsed ob \<and> learnStep b = learnStep t
          \<and> buttonCodes b = buttonCodes t"
        using idle_pass [OF nt, of ob] i by (simp add: b_def millis_def)
    qed
    show "learningMode (fst (learn_loop s0 (obs @ [ob]))) =
          (learnStep (fst (learn_loop s0 (obs @ [ob]))) < 4
           \<and> \<not> millis (fst (learn_loop s0 (obs @ [ob]))) - clock s > learningModeTimeout)
        \<and> (millis (fst (learn_loop s0 (obs @ [ob]))) - clock s > learningModeTimeout \<longrightarrow>
             last (trace (fst (learn_loop s0 (obs @ [ob])))) =
               PrintLn ''Learning mode timeout. Exiting...'')
        \<and> (\<not> learningMode (fst (learn_loop s0 (obs @ [ob]))) \<longrightarrow>
             learn_loop s0 (obs @ ob # rest) = (fst (learn_loop s0 (obs @ [ob])), rest))
        \<and> (signal ob = None \<and> (obs \<noteq> [] \<or> \<not> takes s) \<longrightarrow>
             millis (fst (learn_loop s0 (obs @ [ob]))) = millis t + elapsed ob
           \<and> learnStep (fst (learn_loop s0 (obs @ [ob]))) = learnStep t
           \<and> buttonCodes (fst (learn_loop s0 (obs @ [ob]))) = buttonCodes t)"
      unfolding u using p1 p2 p3 p4 by (intro conjI)
  qed
  have d: "drop (learnStep t) (buttonCodes t) = drop (learnStep t) (buttonCodes s)"
    using session_rest [of s0 obs] by (simp add: s0 t_def)
  have x0: "\<not> learningMode t \<longrightarrow> learnStep t = 4 \<or> 300000 < since_start t"
    using session_exit [of s0 obs] by (simp add: s0 t_def)
  have x: "\<not> learningMode t \<longrightarrow>
      learnStep t = 4 \<or> millis t - learningModeStartTime t > learningModeTimeout"
    unfolding millis_def using x0 by (simp only: flip: timed_out_iff)
  show "let t = fst (enterLearningMode s obs)
       in learnStep t \<le> 4
        \<and> drop (learnStep t) (buttonCodes t) = drop (learnStep t) (buttonCodes s)
        \<and> learningModeStartTime t = clock s
        \<and> (\<not> learningMode t \<longrightarrow>
             learnStep t = 4 \<or> millis t - learningModeStartTime t > learningModeTimeout)"
    unfolding Let_def en t_def [symmetric] using bound(1) d st x by (intro conjI)
qed

theorem session_outcome_witness:
  "length (buttonCodes paired) = 4 \<and> \<not> takes paired
   \<and> signals four_shown = [9, 8, 9, 3]
   \<and> chain_ok (lastReceivedCode paired) (signals four_shown)
   \<and> buttonCodes (fst (enterLearningMode paired four_shown)) = [9, 8, 9, 3]
   \<and> learnStep (fst (enterLearningMode paired four_shown)) = 4
   \<and> \<not> learningMode (fst (enterLearningMode paired four_shown))
   \<and> \<not> learningMode (fst (enterLearningMode paired one_shown_then_late))
   \<and> learnStep (fst (enterLearningMode paired one_shown_then_late)) = 1
   \<and> buttonCodes (fst (enterLearningMode paired one_shown_then_late)) = [9, 6, 7, 6]
   \<and> last (trace (fst (enterLearningMode paired one_shown_then_late))) =
       PrintLn ''Learning mode timeout. Exiting...''
   \<and> snd (enterLearningMode paired one_shown_then_late) = [Obs 1 None False]
   \<and> learningModeStartTime (fst (enterLearningMode paired one_shown_then_late)) = 0
   \<and> millis (fst (enterLearningMode paired one_shown_then_late))
        - learningModeStartTime (fst (enterLearningMode paired one_shown_then_late))
      > learningModeTimeout
   \<and> learningMode (fst (enterLearningMode paired [Obs 200000 (Some 9) False]))
   \<and> elapsed (Obs 150000 None False) < learningModeTimeout
   \<and> millis (fst (enterLearningMode paired one_shown_then_late))
      = millis (fst (enterLearningMode paired [Obs 200000 (Some 9) False])) + 150000
   \<and> learnStep (fst (enterLearningMode paired one_shown_then_late))
      = learnStep (fst (enterLearningMode paired [Obs 200000 (Some 9) False]))
   \<and> buttonCodes (fst (enterLearningMode paired one_shown_then_late))
      = buttonCodes (fst (enterLearningMode paired [Obs 200000 (Some 9) False]))
   \<and> millis (fst (enterLearningMode paired one_shown_then_late)) - clock paired
      > learningModeTimeout
   \<and> enterLearningMode paired one_shown_then_late =
       (fst (enterLearningMode paired [Obs 200000 (Some 9) False, Obs 150000 None False]),
        [Obs 1 None False])"
proof -
  let ?one = "[Obs 200000 (Some 9) False]"
  let ?late = "Obs 150000 None False"
  let ?rest = "[Obs 1 None False]"
  define t where "t = fst (enterLearningMode paired ?one)"
  define u where "u = fst (enterLearningMode paired (?one @ [?late]))"
  define w where "w = fst (enterLearningMode paired one_shown_then_late)"
  have sig: "signals four_shown = [9, 8, 9, 3]"
    by (simp add: four_shown_def)
  have nt: "\<not> takes paired"
    by (simp add: takes_def)
  have h4: "length (buttonCodes paired) = 4 \<and> \<not> takes paired
      \<and> chain_ok (lastReceivedCode paired) (signals four_shown)
      \<and> length (signals four_shown) \<le> 4
      \<and> span four_shown + 2020 * length (signals four_shown) \<le> 300000"
    using nt by (simp add: sig) (simp add: four_shown_def)
  have h1: "length (buttonCodes paired) = 4 \<and> \<not> takes paired
      \<and> chain_ok (lastReceivedCode paired) (signals ?one)
      \<and> length (signals ?one) \<le> 4
      \<and> span ?one + 2020 * length (signals ?one) \<le> 300000"
    using nt by simp
  have l: "length (signals ?one) < 4 \<and> signal ?late = None
      \<and> 300000 < span ?one + unat (elapsed ?late) \<and> unat (elapsed ?late) + 300000 < 2 ^ 32"
    by simp
  have i: "signal ?late = None \<and> (?one \<noteq> [] \<or> \<not> takes paired)"
    by simp
  have app: "?one @ ?late # ?rest = one_shown_then_late"
    by (simp add: one_shown_then_late_def)
  note a = session_outcome [where s = paired and obs = four_shown and late = ?late
      and rest = ?rest, THEN conjunct1, THEN mp, OF h4, THEN conjunct1, unfolded Let_def sig]
  note r = session_outcome [where s = paired and obs = ?one and late = ?late
      and rest = ?rest, THEN conjunct1, THEN mp, OF h1, THEN conjunct1, unfolded Let_def,
      folded t_def]
  note b = session_outcome [where s = paired and obs = ?one and late = ?late
      and rest = ?rest, THEN conjunct1, THEN mp, OF h1, THEN conjunct2, THEN mp, OF l,
      unfolded Let_def app, folded w_def]
  have lm: "learningMode t"
    using r by simp
  note p = session_outcome [where s = paired and obs = ?one and ob = ?late
      and rest = ?rest, THEN conjunct2, THEN conjunct1, unfolded Let_def app,
      folded t_def u_def, THEN mp, OF lm]
  note p4 = p [THEN conjunct2, THEN conjunct2, THEN conjunct2, THEN mp, OF i]
  note c = session_outcome [where s = paired and obs = one_shown_then_late and late = ?late
      and rest = ?rest, THEN conjunct2, THEN conjunct2, unfolded Let_def, folded w_def]
  have a': "buttonCodes (fst (enterLearningMode paired four_shown)) = [9, 8, 9, 3]"
    "learnStep (fst (enterLearningMode paired four_shown)) = 4"
    "\<not> learningMode (fst (enterLearningMode paired four_shown))"
    using a by simp_all
  have b': "\<not> learningMode w" "learnStep w = 1" "buttonCodes w = [9, 6, 7, 6]"
    "last (trace w) = PrintLn ''Learning mode timeout. Exiting...''"
    "snd (enterLearningMode paired one_shown_then_late) = [Obs 1 None False]"
    using b by simp_all
  have c1: "learningModeStartTime w = 0"
    using c by simp
  have ne: "learnStep w \<noteq> 4"
    using b'(2) by simp
  have c2: "millis w - learningModeStartTime w > learningModeTimeout"
    using c b'(1) ne by blast
  note b0 = session_outcome [where s = paired and obs = ?one and late = ?late
      and rest = "[]", THEN conjunct1, THEN mp, OF h1, THEN conjunct2, THEN mp, OF l,
      unfolded Let_def, folded u_def]
  have nu: "\<not> learningMode u" and k: "learnStep u < 4"
    using b0 by simp_all
  have step: "learnStep u = learnStep t" and codes: "buttonCodes u = buttonCodes t"
    and clk: "millis u = millis t + 150000"
    using p4 by simp_all
  have out: "millis u - clock paired > learningModeTimeout"
    using p [THEN conjunct1] nu k by blast
  have ret: "enterLearningMode paired one_shown_then_late = (u, ?rest)"
    using p [THEN conjunct2, THEN conjunct2, THEN conjunct1] nu by blast
  have wu: "w = u"
    by (simp add: w_def ret)
  have u2: "u = fst (enterLearningMode paired [Obs 200000 (Some 9) False, Obs 150000 None False])"
    by (simp add: u_def)
  have gap: "elapsed ?late < learningModeTimeout"
    by (simp add: learningModeTimeout_def)
  show ?thesis
    unfolding w_def [symmetric] t_def [symmetric]
    using h4 sig a' b' c1 c2 lm gap clk step codes out ret
    unfolding wu u2 [symmetric]
    by (intro conjI) simp_all
qed

end
